theory Spec2Isabelle
  imports Main "HOL-Library.Char_ord" "HOL-Library.List_Lexorder"
begin

section \<open>Python strings\<close>

text \<open>
  A Python \<open>str\<close> is modelled as a \<open>string\<close> whose characters are the code points
  below 256 (ASCII and Latin-1, which holds the non-breaking space \<open>\xa0\<close> that the
  scripts remove). The identifiers and residue names of the PDB are ASCII. The
  classification of every code point below 256 is written as CPython has it.
\<close>

definition code_point :: "char \<Rightarrow> nat" where
  "code_point c = of_char c"

text \<open>\<open>str.isspace\<close>, the characters \<open>str.strip()\<close> removes: TAB to CR, FS to US and the
  space, NEL (\<open>\x85\<close>) and the non-breaking space (\<open>\xa0\<close>).\<close>

definition is_space :: "char \<Rightarrow> bool" where
  "is_space c = (let n = code_point c in
     (9 \<le> n \<and> n \<le> 13) \<or> (28 \<le> n \<and> n \<le> 32) \<or> n = 133 \<or> n = 160)"

text \<open>The ASCII letters and digits, the alphanumeric characters of an identifier.\<close>

definition is_alnum :: "char \<Rightarrow> bool" where
  "is_alnum c = (let n = code_point c in
     (48 \<le> n \<and> n \<le> 57) \<or> (65 \<le> n \<and> n \<le> 90) \<or> (97 \<le> n \<and> n \<le> 122))"

text \<open>The class \<open>\w\<close> of a \<open>str\<close> pattern: the alphanumeric code points (\<open>str.isalnum\<close>,
  which below 256 adds the Latin-1 letters, superscript digits and fractions) and the
  underscore.\<close>

definition is_word :: "char \<Rightarrow> bool" where
  "is_word c = (let n = code_point c in
     is_alnum c \<or> n = 95 \<or> n = 170 \<or> n = 178 \<or> n = 179 \<or> n = 181 \<or> n = 185 \<or> n = 186 \<or>
     (188 \<le> n \<and> n \<le> 190) \<or> (192 \<le> n \<and> n \<le> 214) \<or> (216 \<le> n \<and> n \<le> 246) \<or>
     (248 \<le> n \<and> n \<le> 255))"

text \<open>\<open>str.upper\<close>, character by character. Sharp s becomes \<open>SS\<close>. The upper-case forms of
  the micro sign (\<open>\xb5\<close>) and of y with diaeresis (\<open>\xff\<close>) lie beyond code point 255 and
  are outside this model, which leaves the two characters as they are.\<close>

definition upper_char :: "char \<Rightarrow> string" where
  "upper_char c = (let n = code_point c in
     if 97 \<le> n \<and> n \<le> 122 then [char_of (n - 32)]
     else if n = 223 then ''SS''
     else if 224 \<le> n \<and> n \<le> 254 \<and> n \<noteq> 247 then [char_of (n - 32)]
     else [c])"

definition upper :: "string \<Rightarrow> string" where
  "upper s = concat (map upper_char s)"

definition lstrip :: "string \<Rightarrow> string" where
  "lstrip s = dropWhile is_space s"

definition rstrip :: "string \<Rightarrow> string" where
  "rstrip s = rev (dropWhile is_space (rev s))"

text \<open>\<open>s.strip()\<close>: leading and trailing whitespace removed.\<close>

definition strip :: "string \<Rightarrow> string" where
  "strip s = rstrip (lstrip s)"

text \<open>\<open>s.replace(old, "")\<close> for a one-character \<open>old\<close>.\<close>

definition remove_char :: "char \<Rightarrow> string \<Rightarrow> string" where
  "remove_char old s = filter (\<lambda>c. c \<noteq> old) s"

text \<open>\<open>sep.join(xs)\<close>.\<close>

fun join :: "string \<Rightarrow> string list \<Rightarrow> string" where
  "join sep [] = []"
| "join sep [x] = x"
| "join sep (x # y # ys) = x @ sep @ join sep (y # ys)"

text \<open>The exceptions of Python that the modelled code can raise by itself.\<close>

datatype py_error = IndexError

section \<open>collections.Counter\<close>

text \<open>
  A \<open>Counter\<close> is a \<open>dict\<close>, which keeps its keys in insertion order: an association
  list, a new key appended at the end.
\<close>

type_synonym counter = "(string \<times> nat) list"

text \<open>\<open>c[k] += 1\<close>: a missing key reads as 0 and is inserted last.\<close>

fun counter_incr :: "counter \<Rightarrow> string \<Rightarrow> counter" where
  "counter_incr [] k = [(k, 1)]"
| "counter_incr ((k', n) # c) k =
     (if k' = k then (k', n + 1) # c else (k', n) # counter_incr c k)"

text \<open>\<open>c[k]\<close> read: 0 for a missing key.\<close>

fun counter_get :: "counter \<Rightarrow> string \<Rightarrow> nat" where
  "counter_get [] k = 0"
| "counter_get ((k', n) # c) k = (if k' = k then n else counter_get c k)"

text \<open>\<open>max(items, key=count)\<close>, as \<open>heapq.nlargest(1, ...)\<close> calls it: the items are read
  in the dict's order and the running best is replaced only by a strictly larger
  count.\<close>

fun max_first :: "(string \<times> nat) \<Rightarrow> (string \<times> nat) list \<Rightarrow> (string \<times> nat)" where
  "max_first best [] = best"
| "max_first best (x # xs) = max_first (if snd best < snd x then x else best) xs"

text \<open>\<open>c.most_common(1)\<close>: the empty list for an empty counter.\<close>

definition most_common_1 :: "counter \<Rightarrow> (string \<times> nat) list" where
  "most_common_1 c = (case c of [] \<Rightarrow> [] | e # es \<Rightarrow> [max_first e es])"

section \<open>The extraction routine\<close>

text \<open>
  A residue of a parsed structure (Bio.PDB): \<open>hetfield\<close> is \<open>residue.id[0]\<close>, one blank
  for a standard polymer residue; \<open>resname\<close> is what \<open>residue.get_resname()\<close> returns,
  padded as the fixed columns of the file have it; \<open>atoms\<close> are the names of the
  residue's atoms.
\<close>

record residue =
  hetfield :: string
  resname :: string
  atoms :: "string list"

type_synonym pdb_chain = "residue list"
type_synonym pdb_model = "pdb_chain list"
type_synonym pdb_structure = "pdb_model list"

definition SOLVENTS :: "string set" where
  "SOLVENTS = {''HOH'', ''WAT'', ''SO4'', ''PO4'', ''CL'', ''NA'', ''MG'', ''ZN'', ''K'', ''CA''}"

text \<open>The three collections the loop fills.\<close>

record extraction =
  ligands :: "string list"
  all_residues :: "string set"
  residue_counts :: counter

definition empty_extraction :: extraction where
  "empty_extraction = \<lparr>ligands = [], all_residues = {}, residue_counts = []\<rparr>"

text \<open>The body of the innermost loop (\<open>ache_only_extract.py\<close>, lines 70 to 76).\<close>

definition visit_residue :: "residue \<Rightarrow> extraction \<Rightarrow> extraction" where
  "visit_residue r st =
     (let name = strip (resname r);
          st1 = st\<lparr>all_residues := insert name (all_residues st)\<rparr>
      in if hetfield r \<noteq> '' '' then
           (if name \<notin> SOLVENTS then
              st1\<lparr>ligands := ligands st1 @ [name],
                  residue_counts := counter_incr (residue_counts st1) name\<rparr>
            else st1)
         else st1)"

text \<open>\<open>for model in structure: for chain in model: for residue in chain\<close>.\<close>

definition walk_structure :: "pdb_structure \<Rightarrow> extraction" where
  "walk_structure s =
     fold (\<lambda>model. fold (\<lambda>chain. fold visit_residue chain) model) s empty_extraction"

text \<open>\<open>residue_counts.most_common(1)[0][0] if residue_counts else "None"\<close>; the index
  \<open>[0]\<close> raises on an empty list.\<close>

definition most_common_ligand :: "counter \<Rightarrow> py_error + string" where
  "most_common_ligand rc =
     (if rc \<noteq> [] then
        (case most_common_1 rc of [] \<Rightarrow> Inl IndexError | e # _ \<Rightarrow> Inr (fst e))
      else Inr ''None'')"

text \<open>The primary ligand of a structure.\<close>

definition primary_ligand :: "pdb_structure \<Rightarrow> py_error + string" where
  "primary_ligand s = most_common_ligand (residue_counts (walk_structure s))"

text \<open>The residues of a structure in the order the loops visit them.\<close>

definition residues_of :: "pdb_structure \<Rightarrow> residue list" where
  "residues_of s = concat (concat s)"

text \<open>A residue is a ligand candidate when it is a heteroatom group whose stripped
  name is outside the exclusion set; \<open>candidate_names\<close> lists such names in visiting
  order, one entry per residue.\<close>

definition is_candidate :: "residue \<Rightarrow> bool" where
  "is_candidate r = (hetfield r \<noteq> '' '' \<and> strip (resname r) \<notin> SOLVENTS)"

definition candidate_names :: "residue list \<Rightarrow> string list" where
  "candidate_names rs = map (\<lambda>r. strip (resname r)) (filter is_candidate rs)"

text \<open>The number of ligand-candidate residues of a structure that carry a name.\<close>

definition occurrences :: "pdb_structure \<Rightarrow> string \<Rightarrow> nat" where
  "occurrences s name =
     length (filter (\<lambda>r. is_candidate r \<and> strip (resname r) = name) (residues_of s))"

text \<open>The position of the first occurrence of a name in a list.\<close>

fun first_index :: "'a list \<Rightarrow> 'a \<Rightarrow> nat" where
  "first_index [] x = 0"
| "first_index (y # ys) x = (if x = y then 0 else Suc (first_index ys x))"

text \<open>The counter after \<open>c[k] += 1\<close> for each name of a list in turn, from empty.\<close>

definition counter_of :: "string list \<Rightarrow> counter" where
  "counter_of ks = fold (\<lambda>k c. counter_incr c k) ks []"

section \<open>The hand-rolled scan of \<open>realligand_mapping.py\<close>\<close>

definition exclude_resnames :: "string set" where
  "exclude_resnames = {''HOH'', ''SO4'', ''PO4'', ''CL'', ''NA'', ''MG'', ''CA'', ''ZN'', ''K''}"

text \<open>\<open>s.startswith(p)\<close>.\<close>

definition startswith :: "string \<Rightarrow> string \<Rightarrow> bool" where
  "startswith s p = (take (length p) s = p)"

text \<open>\<open>s[i:j]\<close> for \<open>0 \<le> i \<le> j\<close>: a slice beyond the end is cut short, not an error.\<close>

definition slice :: "nat \<Rightarrow> nat \<Rightarrow> string \<Rightarrow> string" where
  "slice i j s = take (j - i) (drop i s)"

text \<open>The body of the loop over the lines of a file (lines 43 to 46).\<close>

definition scan_line :: "string \<Rightarrow> string set \<Rightarrow> string set" where
  "scan_line line ligs =
     (if startswith line ''HETATM'' then
        (let resname = strip (slice 17 20 line)
         in if resname \<noteq> [] \<and> upper resname \<notin> exclude_resnames
            then insert resname ligs else ligs)
      else ligs)"

definition scan_pdb_lines :: "string list \<Rightarrow> string set" where
  "scan_pdb_lines lines = fold scan_line lines {}"

text \<open>The value stored in the column \<open>Ligand_Resname\<close> (lines 48 to 54); \<open>None\<close> is the
  placeholder the column was filled with.\<close>

definition ligand_resname :: "string set \<Rightarrow> string option" where
  "ligand_resname ligs =
     (let xs = sorted_list_of_set ligs
      in if length xs = 1 then Some (hd xs)
         else if 1 < length xs then Some (join '';'' xs)
         else None)"

section \<open>The identifier normaliser\<close>

text \<open>Where \<open>$\<close> matches without the MULTILINE flag: at the end of the string and before
  a newline that ends it.\<close>

definition at_dollar :: "string \<Rightarrow> bool" where
  "at_dollar rest = (rest = [] \<or> rest = [CHR 0x0A])"

text \<open>\<open>\w{4}\<close> matched at the start of a string.\<close>

definition match_w4 :: "string \<Rightarrow> string option" where
  "match_w4 s = (if 4 \<le> length s \<and> list_all is_word (take 4 s) then Some (take 4 s) else None)"

text \<open>\<open>re.search\<close> for \<open>(\w{4})$\<close>: the leftmost start at which the pattern matches.\<close>

fun search_w4_end :: "string \<Rightarrow> string option" where
  "search_w4_end [] = None"
| "search_w4_end (c # cs) =
     (case match_w4 (c # cs) of
        Some t \<Rightarrow> if at_dollar (drop 4 (c # cs)) then Some t else search_w4_end cs
      | None \<Rightarrow> search_w4_end cs)"

text \<open>\<open>re.search\<close> for the pattern \<open>(\w{4})\<close> without the anchor.\<close>

fun search_w4 :: "string \<Rightarrow> string option" where
  "search_w4 [] = None"
| "search_w4 (c # cs) =
     (case match_w4 (c # cs) of Some t \<Rightarrow> Some t | None \<Rightarrow> search_w4 cs)"

text \<open>Line 41 of \<open>ache_only_extract.py\<close>: the cell with the non-breaking spaces removed,
  then stripped.\<close>

definition clean_cell :: "string \<Rightarrow> string" where
  "clean_cell raw = strip (remove_char (CHR 0xA0) raw)"

text \<open>Line 42: \<open>.str.extract(r'(\w{4})$')[0].str.upper().str.strip()\<close>; a cell without a
  match becomes the missing value \<open>NaN\<close>, here \<open>None\<close>, and stays missing.\<close>

definition extract_pdb_id :: "string \<Rightarrow> string option" where
  "extract_pdb_id cell = map_option (\<lambda>t. strip (upper t)) (search_w4_end cell)"

definition normalize_pdb_id :: "string \<Rightarrow> string option" where
  "normalize_pdb_id raw = extract_pdb_id (clean_cell raw)"

text \<open>Line 63 of \<open>extract_ligands_split_dual.py\<close>:
  \<open>.str.extract(r'(\w{4})')[0].str.upper()\<close> on the cell as read.\<close>

definition extract_pdb_id_split :: "string \<Rightarrow> string option" where
  "extract_pdb_id_split cell = map_option upper (search_w4 cell)"

section \<open>The outside world\<close>

text \<open>
  The file system as a map from paths to contents and the log of the URLs requested.
  The remote server is a parameter \<open>remote\<close>: what \<open>requests.get(url)\<close> followed by
  \<open>raise_for_status()\<close> gives for a URL, \<open>Inl\<close> the message of the exception raised,
  \<open>Inr\<close> the text of the response. The structure parser of Bio.PDB is a parameter
  \<open>parse\<close> in the same way.
\<close>

record world =
  files :: "string \<rightharpoonup> string"
  requests :: "string list"

type_synonym remote = "string \<Rightarrow> string + string"
type_synonym parser = "string \<Rightarrow> string + pdb_structure"

definition http_get :: "remote \<Rightarrow> string \<Rightarrow> world \<Rightarrow> (string + string) \<times> world" where
  "http_get remote url w = (remote url, w\<lparr>requests := requests w @ [url]\<rparr>)"

text \<open>A missing value formats as \<open>nan\<close> in an f-string.\<close>

definition format_id :: "string option \<Rightarrow> string" where
  "format_id pid = (case pid of None \<Rightarrow> ''nan'' | Some s \<Rightarrow> s)"

definition download_url :: "string option \<Rightarrow> string" where
  "download_url pid = ''https://files.rcsb.org/download/'' @ format_id pid @ ''.pdb''"

definition error_message :: "py_error \<Rightarrow> string" where
  "error_message e = (case e of IndexError \<Rightarrow> ''list index out of range'')"

section \<open>The batch drivers\<close>

record input_row =
  unique_id :: string
  pdb_id_cell :: string

record prepared_row = input_row +
  PDB_ID :: "string option"

record result_row =
  out_unique_id :: string
  out_pdb_id_cell :: string
  out_PDB_ID :: "string option"
  out_ligand :: string
  out_candidates :: string
  out_residues :: string

record batch =
  results :: "result_row list"
  console :: "string list"
  world :: world

text \<open>Lines 41 to 43 of \<open>ache_only_extract.py\<close> (48 to 50 of \<open>ligand_mapping_full.py\<close>).\<close>

definition prepare_row :: "input_row \<Rightarrow> prepared_row" where
  "prepare_row r =
     \<lparr>unique_id = strip (unique_id r), pdb_id_cell = clean_cell (pdb_id_cell r),
      PDB_ID = extract_pdb_id (clean_cell (pdb_id_cell r))\<rparr>"

text \<open>The three fields computed from a parsed structure (lines 63 to 87).\<close>

definition extract_fields :: "pdb_structure \<Rightarrow> py_error + (string \<times> string \<times> string)" where
  "extract_fields s =
     (let st = walk_structure s
      in case most_common_ligand (residue_counts st) of
           Inl e \<Rightarrow> Inl e
         | Inr lig \<Rightarrow>
             Inr (lig,
                  if ligands st \<noteq> [] then join '', '' (sorted_list_of_set (set (ligands st)))
                  else ''None'',
                  join '', '' (sorted_list_of_set (all_residues st))))"

text \<open>The body of the \<open>try\<close> block: the request, the parse and the extraction. \<open>Inl\<close> is
  the message of the exception that leaves the block.\<close>

definition try_extract ::
    "remote \<Rightarrow> parser \<Rightarrow> string option \<Rightarrow> world \<Rightarrow> (string + (string \<times> string \<times> string)) \<times> world" where
  "try_extract remote parse pid w =
     (let (response, w') = http_get remote (download_url pid) w
      in case response of
           Inl e \<Rightarrow> (Inl e, w')
         | Inr text \<Rightarrow>
             (case parse text of
                Inl e \<Rightarrow> (Inl e, w')
              | Inr s \<Rightarrow>
                  (case extract_fields s of
                     Inl e \<Rightarrow> (Inl (error_message e), w')
                   | Inr flds \<Rightarrow> (Inr flds, w'))))"

definition ok_row :: "prepared_row \<Rightarrow> string \<times> string \<times> string \<Rightarrow> result_row" where
  "ok_row r flds =
     (case flds of (lig, cands, ress) \<Rightarrow>
        \<lparr>out_unique_id = unique_id r, out_pdb_id_cell = pdb_id_cell r, out_PDB_ID = PDB_ID r,
         out_ligand = lig, out_candidates = cands, out_residues = ress\<rparr>)"

text \<open>One turn of the loop of \<open>ache_only_extract.py\<close> (lines 50 to 91): the handler prints
  and goes on to the next row.\<close>

definition process_row_ache :: "remote \<Rightarrow> parser \<Rightarrow> prepared_row \<Rightarrow> batch \<Rightarrow> batch" where
  "process_row_ache remote parse r b =
     (let (outcome, w') = try_extract remote parse (PDB_ID r) (world b)
      in case outcome of
           Inr flds \<Rightarrow> b\<lparr>results := results b @ [ok_row r flds], world := w'\<rparr>
         | Inl e \<Rightarrow>
             b\<lparr>console := console b @ [''Skipping '' @ format_id (PDB_ID r) @ '' due to error: '' @ e],
               world := w'\<rparr>)"

definition run_ache :: "remote \<Rightarrow> parser \<Rightarrow> input_row list \<Rightarrow> world \<Rightarrow> batch" where
  "run_ache remote parse rows w =
     fold (process_row_ache remote parse) (map prepare_row rows)
       \<lparr>results = [], console = [], world = w\<rparr>"

text \<open>One turn of the loop of \<open>ligand_mapping_full.py\<close> (lines 59 to 107): the handler
  prints and appends a row that carries the message.\<close>

definition error_row :: "prepared_row \<Rightarrow> string \<Rightarrow> result_row" where
  "error_row r e =
     \<lparr>out_unique_id = unique_id r, out_pdb_id_cell = pdb_id_cell r, out_PDB_ID = PDB_ID r,
      out_ligand = ''Error: '' @ e, out_candidates = ''N/A'', out_residues = ''N/A''\<rparr>"

definition process_row_full :: "remote \<Rightarrow> parser \<Rightarrow> prepared_row \<Rightarrow> batch \<Rightarrow> batch" where
  "process_row_full remote parse r b =
     (let (outcome, w') = try_extract remote parse (PDB_ID r) (world b)
      in case outcome of
           Inr flds \<Rightarrow> b\<lparr>results := results b @ [ok_row r flds], world := w'\<rparr>
         | Inl e \<Rightarrow>
             b\<lparr>results := results b @ [error_row r e],
               console := console b @ [''Error fetching '' @ format_id (PDB_ID r) @ '': '' @ e],
               world := w'\<rparr>)"

definition run_full :: "remote \<Rightarrow> parser \<Rightarrow> input_row list \<Rightarrow> world \<Rightarrow> batch" where
  "run_full remote parse rows w =
     fold (process_row_full remote parse) (map prepare_row rows)
       \<lparr>results = [], console = [], world = w\<rparr>"

text \<open>\<open>extract_ligands_split_dual.py\<close>: the identifier is extracted from the cell as read
  and the rows without one are dropped (lines 63 and 64) before the loop.\<close>

definition prepare_row_split :: "input_row \<Rightarrow> prepared_row" where
  "prepare_row_split r =
     \<lparr>unique_id = unique_id r, pdb_id_cell = pdb_id_cell r,
      PDB_ID = extract_pdb_id_split (pdb_id_cell r)\<rparr>"

definition dropna :: "prepared_row list \<Rightarrow> prepared_row list" where
  "dropna rs = filter (\<lambda>r. PDB_ID r \<noteq> None) rs"

text \<open>\<open>str.lower\<close> and the substring test \<open>p in s\<close>.\<close>

definition lower_char :: "char \<Rightarrow> char" where
  "lower_char c = (let n = code_point c in
     if (65 \<le> n \<and> n \<le> 90) \<or> (192 \<le> n \<and> n \<le> 222 \<and> n \<noteq> 215) then char_of (n + 32) else c)"

definition lower :: "string \<Rightarrow> string" where
  "lower s = map lower_char s"

fun contains :: "string \<Rightarrow> string \<Rightarrow> bool" where
  "contains [] p = (p = [])"
| "contains (c # cs) p = (startswith (c # cs) p \<or> contains cs p)"

record split_batch =
  bd2_results :: "result_row list"
  ache_results :: "result_row list"
  split_console :: "string list"
  split_world :: world

text \<open>One turn of its loop (lines 70 to 123).\<close>

definition process_row_split :: "remote \<Rightarrow> parser \<Rightarrow> prepared_row \<Rightarrow> split_batch \<Rightarrow> split_batch" where
  "process_row_split remote parse r b =
     (let (outcome, w') = try_extract remote parse (PDB_ID r) (split_world b)
      in case outcome of
           Inr flds \<Rightarrow>
             (if contains (lower (unique_id r)) ''bd2''
              then b\<lparr>bd2_results := bd2_results b @ [ok_row r flds], split_world := w'\<rparr>
              else if contains (lower (unique_id r)) ''ache''
              then b\<lparr>ache_results := ache_results b @ [ok_row r flds], split_world := w'\<rparr>
              else b\<lparr>split_world := w'\<rparr>)
         | Inl e \<Rightarrow>
             b\<lparr>split_console := split_console b
                   @ [''Skipping '' @ format_id (PDB_ID r) @ '' due to error: '' @ e],
               split_world := w'\<rparr>)"

definition run_split :: "remote \<Rightarrow> parser \<Rightarrow> input_row list \<Rightarrow> world \<Rightarrow> split_batch" where
  "run_split remote parse rows w =
     fold (process_row_split remote parse) (dropna (map prepare_row_split rows))
       \<lparr>bd2_results = [], ache_results = [], split_console = [], split_world = w\<rparr>"

section \<open>The cached download of \<open>final_ligand_extraction.py\<close>\<close>

definition cache_path :: "string \<Rightarrow> string" where
  "cache_path pdb_id = ''/Users/chinazoemeh/HopeMScP/data/pdb_files/'' @ pdb_id @ ''.pdb''"

text \<open>Lines 77 to 87: the file is downloaded only when it does not exist. \<open>Inl\<close> is the
  exception of a failed request, which nothing in that script catches; \<open>Inr\<close> is the
  path the later steps read.\<close>

definition fetch_cached :: "remote \<Rightarrow> string \<Rightarrow> world \<Rightarrow> (string + string) \<times> world" where
  "fetch_cached remote pdb_id w =
     (let pdb_local_path = cache_path pdb_id
      in if files w pdb_local_path = None then
           (let (response, w') = http_get remote (download_url (Some pdb_id)) w
            in case response of
                 Inl e \<Rightarrow> (Inl e, w')
               | Inr text \<Rightarrow> (Inr pdb_local_path, w'\<lparr>files := (files w')(pdb_local_path \<mapsto> text)\<rparr>))
         else (Inr pdb_local_path, w))"

text \<open>What the \<open>try\<close> block gives for an identifier; the outcome does not depend on the
  world it runs in (lemma \<open>try_extract_outcome\<close>).\<close>

definition outcome_of :: "remote \<Rightarrow> parser \<Rightarrow> string option \<Rightarrow> string + (string \<times> string \<times> string)" where
  "outcome_of remote parse pid = fst (try_extract remote parse pid \<lparr>files = Map.empty, requests = []\<rparr>)"

text \<open>What a later step reads at \<open>pdb_local_path\<close>: the cached copy of a code.\<close>

definition cached_text :: "world \<Rightarrow> string \<Rightarrow> string option" where
  "cached_text w pdb_id = files w (cache_path pdb_id)"

section \<open>Test data\<close>

text \<open>Three waters and one heteroatom group \<open>7QZ\<close> in one chain.\<close>

definition scenario_A :: pdb_structure where
  "scenario_A = [[[\<lparr>hetfield = ''W'', resname = ''HOH'', atoms = [''O'']\<rparr>,
                   \<lparr>hetfield = ''H_7QZ'', resname = ''7QZ'', atoms = [''C1'', ''N1'']\<rparr>,
                   \<lparr>hetfield = ''W'', resname = ''HOH'', atoms = [''O'']\<rparr>,
                   \<lparr>hetfield = ''W'', resname = ''HOH'', atoms = [''O'']\<rparr>]]]"

text \<open>Two residues \<open>JQ1\<close> of seven atoms and five residues \<open>UNL\<close> of one atom, in two chains.\<close>

definition scenario_C :: pdb_structure where
  "scenario_C = [[[\<lparr>hetfield = ''H_JQ1'', resname = ''JQ1'', atoms = [''C1'', ''C2'', ''C3'', ''N1'', ''N2'', ''S1'', ''CL'']\<rparr>,
                   \<lparr>hetfield = ''H_UNL'', resname = ''UNL'', atoms = [''C1'']\<rparr>,
                   \<lparr>hetfield = ''H_UNL'', resname = ''UNL'', atoms = [''C1'']\<rparr>],
                  [\<lparr>hetfield = ''H_UNL'', resname = ''UNL'', atoms = [''C1'']\<rparr>,
                   \<lparr>hetfield = ''H_JQ1'', resname = ''JQ1'', atoms = [''C1'', ''C2'', ''C3'', ''N1'', ''N2'', ''S1'', ''CL'']\<rparr>,
                   \<lparr>hetfield = ''H_UNL'', resname = ''UNL'', atoms = [''C1'']\<rparr>,
                   \<lparr>hetfield = ''H_UNL'', resname = ''UNL'', atoms = [''C1'']\<rparr>]]]"

text \<open>Two candidates with the same count, the alphabetically later one met first.\<close>

definition scenario_tie :: pdb_structure where
  "scenario_tie = [[[\<lparr>hetfield = '' '', resname = ''ALA'', atoms = [''CA'']\<rparr>,
                     \<lparr>hetfield = ''H_BBB'', resname = ''BBB'', atoms = [''C1'']\<rparr>,
                     \<lparr>hetfield = ''H_AAA'', resname = ''AAA'', atoms = [''C1'']\<rparr>,
                     \<lparr>hetfield = ''H_AAA'', resname = ''AAA'', atoms = [''C1'']\<rparr>,
                     \<lparr>hetfield = ''H_BBB'', resname = ''BBB'', atoms = [''C1'']\<rparr>,
                     \<lparr>hetfield = ''H_CCC'', resname = ''CCC'', atoms = [''C1'']\<rparr>]]]"

text \<open>The same residues with names padded as in the fixed columns, and stripped.\<close>

definition scenario_padded :: pdb_structure where
  "scenario_padded = [[[\<lparr>hetfield = ''H_ CL'', resname = '' CL'', atoms = [''CL'']\<rparr>,
                        \<lparr>hetfield = ''H_7QZ'', resname = ''7QZ '', atoms = [''C1'']\<rparr>]]]"

definition scenario_stripped :: pdb_structure where
  "scenario_stripped = [[[\<lparr>hetfield = ''H_ CL'', resname = ''CL'', atoms = [''CL'']\<rparr>,
                          \<lparr>hetfield = ''H_7QZ'', resname = ''7QZ'', atoms = [''C1'']\<rparr>]]]"

text \<open>A heteroatom line of a PDB file whose residue name, in columns 18 to 20, is
  \<open>WAT\<close>.\<close>

definition wat_line :: string where
  "wat_line = ''HETATM 2001  O   WAT A 301      10.000  10.000  10.000  1.00 20.00           O''"

text \<open>A server that has no file, a server that has the file of \<open>7RUI\<close>, a parser, an
  empty world and one whose cache holds the file of \<open>7RUI\<close>.\<close>

definition no_remote :: remote where
  "no_remote url = Inl (''404 Client Error: Not Found for url: '' @ url)"

definition world_0 :: world where
  "world_0 = \<lparr>files = Map.empty, requests = []\<rparr>"

definition world_cached :: world where
  "world_cached = \<lparr>files = [cache_path ''7RUI'' \<mapsto> ''HEADER    cached copy''], requests = []\<rparr>"

definition remote_7RUI :: remote where
  "remote_7RUI url = (if url = ''https://files.rcsb.org/download/7RUI.pdb''
                      then Inr ''HEADER    fetched copy'' else no_remote url)"

definition parse_A :: parser where
  "parse_A text = (if text = [] then Inl ''Empty file.'' else Inr scenario_A)"

definition rows_split :: "input_row list" where
  "rows_split = [\<lparr>unique_id = ''BD2_1'', pdb_id_cell = ''7RUI''\<rparr>,
                 \<lparr>unique_id = ''BD2_2'', pdb_id_cell = ''??''\<rparr>]"

text \<open>Two input rows, the first of which the server does not have.\<close>

definition rows_two :: "input_row list" where
  "rows_two = [\<lparr>unique_id = ''AChE_2'', pdb_id_cell = ''0XXX''\<rparr>,
               \<lparr>unique_id = ''AChE_1 '', pdb_id_cell = ''AChE 7RUI''\<rparr>]"

text \<open>A heteroatom line and a residue whose name is a lower-case \<open>hoh\<close>; three lines of
  a file with the name \<open>CL\<close> right-justified in columns 18 to 20, and the same lines
  with it left-justified.\<close>

definition hoh_line :: string where
  "hoh_line = ''HETATM 3003  O   hoh A 403      17.000  18.000  19.000  1.00 25.00           O''"

definition scenario_hoh :: pdb_structure where
  "scenario_hoh = [[[\<lparr>hetfield = ''H_hoh'', resname = ''hoh'', atoms = [''O'']\<rparr>]]]"

definition lines_padded :: "string list" where
  "lines_padded =
     [''ATOM      1  N   ALA A   1      17.000  18.000  19.000  1.00 25.00           N'',
      ''HETATM 3001 CL    CL A 401      11.000  12.000  13.000  1.00 30.00          CL'',
      ''HETATM 3002  C1  7QZ A 402      14.000  15.000  16.000  1.00 25.00           C'']"

definition lines_stripped :: "string list" where
  "lines_stripped =
     [''ATOM      1  N   ALA A   1      17.000  18.000  19.000  1.00 25.00           N'',
      ''HETATM 3001 CL   CL  A 401      11.000  12.000  13.000  1.00 30.00          CL'',
      ''HETATM 3002  C1  7QZ A 402      14.000  15.000  16.000  1.00 25.00           C'']"

section \<open>Properties of the counter\<close>

lemma counter_get_incr:
  "counter_get (counter_incr c k) k' = counter_get c k' + (if k = k' then 1 else 0)"
  by (induction c k rule: counter_incr.induct) auto

lemma keys_counter_incr:
  "map fst (counter_incr c k) = (if k \<in> fst ` set c then map fst c else map fst c @ [k])"
  by (induction c k rule: counter_incr.induct) (auto simp: image_iff)

lemma counter_get_fold:
  "counter_get (fold (\<lambda>k c. counter_incr c k) ks c) k = counter_get c k + count_list ks k"
  by (induction ks arbitrary: c) (auto simp: counter_get_incr)

lemma keys_fold:
  "fst ` set (fold (\<lambda>k c. counter_incr c k) ks c) = fst ` set c \<union> set ks"
proof (induction ks arbitrary: c)
  case Nil show ?case by simp
next
  case (Cons k ks)
  have "fst ` set (counter_incr c k) = insert k (fst ` set c)"
    by (induction c k rule: counter_incr.induct) auto
  then show ?case using Cons by auto
qed

lemma distinct_keys_incr:
  "distinct (map fst c) \<Longrightarrow> distinct (map fst (counter_incr c k))"
  by (simp add: keys_counter_incr)

lemma counter_get_entry:
  "distinct (map fst c) \<Longrightarrow> (k, n) \<in> set c \<Longrightarrow> counter_get c k = n"
  by (induction c) (auto simp: image_iff rev_image_eqI)

lemma max_first_split:
  "\<exists>pre post. b # xs = pre @ max_first b xs # post \<and>
      (\<forall>e \<in> set pre. snd e < snd (max_first b xs)) \<and>
      (\<forall>e \<in> set post. snd e \<le> snd (max_first b xs))"
proof (induction xs arbitrary: b)
  case Nil
  show ?case by (intro exI[of _ "[]"]) simp
next
  case (Cons x xs)
  show ?case
  proof (cases "snd b < snd x")
    case True
    then have eq: "max_first b (x # xs) = max_first x xs" by simp
    from Cons[of x] obtain pre post where
      s: "x # xs = pre @ max_first x xs # post"
      and lt: "\<forall>e \<in> set pre. snd e < snd (max_first x xs)"
      and le: "\<forall>e \<in> set post. snd e \<le> snd (max_first x xs)" by blast
    have "snd x \<le> snd (max_first x xs)"
      using s lt by (cases pre) auto
    with True have bl: "snd b < snd (max_first x xs)" by simp
    have "b # x # xs = (b # pre) @ max_first x xs # post" using s by simp
    moreover have "\<forall>e \<in> set (b # pre). snd e < snd (max_first x xs)" using lt bl by simp
    ultimately show ?thesis unfolding eq using le by blast
  next
    case False
    then have eq: "max_first b (x # xs) = max_first b xs" by simp
    from Cons[of b] obtain pre post where
      s: "b # xs = pre @ max_first b xs # post"
      and lt: "\<forall>e \<in> set pre. snd e < snd (max_first b xs)"
      and le: "\<forall>e \<in> set post. snd e \<le> snd (max_first b xs)" by blast
    show ?thesis
    proof (cases pre)
      case Nil
      with s have mb: "max_first b xs = b" and p: "post = xs" by auto
      have "b # x # xs = [] @ b # (x # xs)" by simp
      moreover have "\<forall>e \<in> set (x # xs). snd e \<le> snd b" using le False mb p by auto
      ultimately show ?thesis unfolding eq mb by (metis empty_iff empty_set)
    next
      case (Cons b' pre')
      with s have b': "b' = b" and xs: "xs = pre' @ max_first b xs # post" by auto
      from lt Cons b' have "snd b < snd (max_first b xs)" by simp
      with False have xl: "snd x < snd (max_first b xs)" by simp
      have "b # x # xs = (b # x # pre') @ max_first b xs # post" using xs by simp
      moreover have "\<forall>e \<in> set (b # x # pre'). snd e < snd (max_first b xs)"
        using lt Cons b' xl by simp
      ultimately show ?thesis unfolding eq using le by blast
    qed
  qed
qed

lemma first_index_less: "a \<in> set xs \<Longrightarrow> first_index xs a < length xs"
  by (induction xs) auto

lemma first_index_append: "a \<in> set xs \<Longrightarrow> first_index (xs @ ys) a = first_index xs a"
  by (induction xs) auto

lemma first_index_snoc_new: "x \<notin> set xs \<Longrightarrow> first_index (xs @ [x]) x = length xs"
  by (induction xs) auto

lemma counter_of_snoc: "counter_of (ks @ [k]) = counter_incr (counter_of ks) k"
  by (simp add: counter_of_def)

lemma keys_counter_of: "fst ` set (counter_of ks) = set ks"
  by (simp add: counter_of_def keys_fold)

lemma distinct_counter_of: "distinct (map fst (counter_of ks))"
  by (induction ks rule: rev_induct)
     (simp_all add: counter_of_snoc distinct_keys_incr, simp add: counter_of_def)

lemma counter_get_counter_of: "counter_get (counter_of ks) k = count_list ks k"
  by (simp add: counter_of_def counter_get_fold)

lemma counter_of_entry: "(k, n) \<in> set (counter_of ks) \<Longrightarrow> n = count_list ks k"
  using counter_get_entry[OF distinct_counter_of, of k n ks] by (simp add: counter_get_counter_of)

lemma counter_of_order:
  "sorted_wrt (\<lambda>a b. first_index ks a < first_index ks b) (map fst (counter_of ks))"
proof (induction ks rule: rev_induct)
  case Nil
  show ?case by (simp add: counter_of_def)
next
  case (snoc k ks)
  have old: "sorted_wrt (\<lambda>a b. first_index (ks @ [k]) a < first_index (ks @ [k]) b)
               (map fst (counter_of ks))"
  proof (rule sorted_wrt_mono_rel[OF _ snoc])
    fix a b assume "a \<in> set (map fst (counter_of ks))" "b \<in> set (map fst (counter_of ks))"
      and "first_index ks a < first_index ks b"
    then show "first_index (ks @ [k]) a < first_index (ks @ [k]) b"
      using keys_counter_of[of ks] by (simp add: first_index_append)
  qed
  show ?case
  proof (cases "k \<in> set ks")
    case True
    then show ?thesis using old
      by (simp add: counter_of_snoc keys_counter_incr keys_counter_of)
  next
    case False
    have "\<forall>a \<in> set (map fst (counter_of ks)). first_index (ks @ [k]) a < first_index (ks @ [k]) k"
      using keys_counter_of[of ks] False
      by (auto simp: first_index_append first_index_snoc_new first_index_less)
    then show ?thesis using old False
      by (simp add: counter_of_snoc keys_counter_incr keys_counter_of sorted_wrt_append)
  qed
qed

lemma most_common_first_max:
  assumes ne: "names \<noteq> []"
  shows "\<exists>p. most_common_ligand (counter_of names) = Inr p \<and> p \<in> set names \<and>
           (\<forall>q \<in> set names. count_list names q \<le> count_list names p) \<and>
           (\<forall>q \<in> set names. count_list names q = count_list names p \<longrightarrow>
                first_index names p \<le> first_index names q)"
proof -
  let ?c = "counter_of names"
  let ?fi = "first_index names"
  from ne keys_counter_of[of names] have "?c \<noteq> []" by auto
  then obtain e es where c: "?c = e # es" by (cases ?c) auto
  define r where "r = max_first e es"
  obtain pre post where split: "?c = pre @ r # post"
    and lt: "\<forall>x \<in> set pre. snd x < snd r"
    and le: "\<forall>x \<in> set post. snd x \<le> snd r"
    using max_first_split[of e es] c r_def by auto
  have mcl: "most_common_ligand ?c = Inr (fst r)"
    by (simp add: most_common_ligand_def most_common_1_def c r_def)
  have rin: "r \<in> set ?c" using split by simp
  then have pin: "fst r \<in> set names" using keys_counter_of[of names] by force
  have cnt: "snd x = count_list names (fst x)" if "x \<in> set ?c" for x
    using counter_of_entry[of "fst x" "snd x" names] that by simp
  have entry: "\<exists>x \<in> set ?c. fst x = q" if "q \<in> set names" for q
    using keys_counter_of[of names] that by force
  have max: "count_list names q \<le> count_list names (fst r)" if q: "q \<in> set names" for q
  proof -
    from entry[OF q] obtain x where x: "x \<in> set ?c" "fst x = q" by blast
    then have "x \<in> set pre \<or> x = r \<or> x \<in> set post" using split by auto
    then have "snd x \<le> snd r" using lt le by (auto simp: less_imp_le)
    then show ?thesis using cnt[OF x(1)] cnt[OF rin] x(2) by simp
  qed
  have ord: "sorted_wrt (\<lambda>a b. ?fi a < ?fi b) (map fst pre @ fst r # map fst post)"
    using counter_of_order[of names] split by simp
  have first: "?fi (fst r) \<le> ?fi q"
    if q: "q \<in> set names" and eq: "count_list names q = count_list names (fst r)" for q
  proof -
    from entry[OF q] obtain x where x: "x \<in> set ?c" "fst x = q" by blast
    have "x \<notin> set pre" using lt cnt[OF x(1)] cnt[OF rin] x(2) eq by auto
    then have "x = r \<or> x \<in> set post" using x(1) split by auto
    then show ?thesis
    proof
      assume "x = r" then show ?thesis using x(2) by simp
    next
      assume "x \<in> set post"
      then have "?fi (fst r) < ?fi (fst x)" using ord by (auto simp: sorted_wrt_append)
      then show ?thesis using x(2) by simp
    qed
  qed
  from mcl pin max first show ?thesis by blast
qed

section \<open>Properties of the loop\<close>

lemma fold_visit_ligands:
  "ligands (fold visit_residue rs st) = ligands st @ candidate_names rs"
  by (induction rs arbitrary: st)
     (auto simp: visit_residue_def candidate_names_def is_candidate_def Let_def)

lemma fold_visit_counts:
  "residue_counts (fold visit_residue rs st) =
     fold (\<lambda>k c. counter_incr c k) (candidate_names rs) (residue_counts st)"
  by (induction rs arbitrary: st)
     (auto simp: visit_residue_def candidate_names_def is_candidate_def Let_def)

lemma fold_visit_all_residues:
  "all_residues (fold visit_residue rs st) =
     all_residues st \<union> (\<lambda>r. strip (resname r)) ` set rs"
  by (induction rs arbitrary: st)
     (auto simp: visit_residue_def Let_def)

lemma fold_chain_concat:
  "fold (\<lambda>chain. fold visit_residue chain) m st = fold visit_residue (concat m) st"
  by (induction m arbitrary: st) auto

lemma walk_structure_flat:
  "walk_structure s = fold visit_residue (residues_of s) empty_extraction"
proof -
  have "fold (\<lambda>model. fold (\<lambda>chain. fold visit_residue chain) model) s st
        = fold visit_residue (concat (concat s)) st" for st
    by (induction s arbitrary: st) (auto simp: fold_chain_concat)
  then show ?thesis by (simp add: walk_structure_def residues_of_def)
qed

lemma walk_ligands: "ligands (walk_structure s) = candidate_names (residues_of s)"
  by (simp add: walk_structure_flat fold_visit_ligands empty_extraction_def)

lemma walk_counts: "residue_counts (walk_structure s) = counter_of (candidate_names (residues_of s))"
  by (simp add: walk_structure_flat fold_visit_counts empty_extraction_def counter_of_def)

lemma walk_all_residues:
  "all_residues (walk_structure s) = (\<lambda>r. strip (resname r)) ` set (residues_of s)"
  by (simp add: walk_structure_flat fold_visit_all_residues empty_extraction_def)

lemma walk_count_get:
  "counter_get (residue_counts (walk_structure s)) k = count_list (ligands (walk_structure s)) k"
  by (simp add: walk_counts walk_ligands counter_get_counter_of)

lemma candidate_names_no_solvent: "set (candidate_names rs) \<inter> SOLVENTS = {}"
  by (auto simp: candidate_names_def is_candidate_def)

lemma candidate_names_subset: "set (candidate_names rs) \<subseteq> (\<lambda>r. strip (resname r)) ` set rs"
  by (auto simp: candidate_names_def)

lemma primary_none: "ligands (walk_structure s) = [] \<Longrightarrow> primary_ligand s = Inr ''None''"
  by (simp add: primary_ligand_def walk_counts walk_ligands most_common_ligand_def counter_of_def)

lemma primary_some:
  assumes "ligands (walk_structure s) \<noteq> []"
  shows "\<exists>p. primary_ligand s = Inr p \<and> p \<in> set (ligands (walk_structure s)) \<and>
           (\<forall>q \<in> set (ligands (walk_structure s)).
               counter_get (residue_counts (walk_structure s)) q
                 \<le> counter_get (residue_counts (walk_structure s)) p) \<and>
           (\<forall>q \<in> set (ligands (walk_structure s)).
               counter_get (residue_counts (walk_structure s)) q
                 = counter_get (residue_counts (walk_structure s)) p \<longrightarrow>
               first_index (ligands (walk_structure s)) p \<le> first_index (ligands (walk_structure s)) q)"
  using most_common_first_max[of "candidate_names (residues_of s)"] assms
  by (simp add: primary_ligand_def walk_count_get) (simp add: walk_counts walk_ligands)

section \<open>Properties of strip\<close>

lemma strip_parts: "lstrip s = strip s @ rev (takeWhile is_space (rev (lstrip s)))"
proof -
  have "rev (takeWhile is_space (rev (lstrip s)) @ dropWhile is_space (rev (lstrip s))) = lstrip s"
    by (simp only: takeWhile_dropWhile_id rev_rev_ident)
  then show ?thesis by (simp only: rev_append strip_def rstrip_def)
qed

lemma strip_ends:
  assumes "strip s \<noteq> []"
  shows "\<not> is_space (hd (strip s)) \<and> \<not> is_space (last (strip s))"
proof
  from assms have ne: "dropWhile is_space (rev (lstrip s)) \<noteq> []"
    by (simp add: strip_def rstrip_def)
  have "last (strip s) = hd (dropWhile is_space (rev (lstrip s)))"
    using ne by (simp add: strip_def rstrip_def last_rev)
  then show "\<not> is_space (last (strip s))" using hd_dropWhile[OF ne] by simp
  have "hd (lstrip s) = hd (strip s)"
    using strip_parts[of s] assms by (metis hd_append2)
  moreover have "lstrip s \<noteq> []" using strip_parts[of s] assms by (metis append_is_Nil_conv)
  ultimately show "\<not> is_space (hd (strip s))"
    using hd_dropWhile[of is_space s] by (simp add: lstrip_def)
qed

lemma strip_fixed:
  assumes "u = [] \<or> (\<not> is_space (hd u) \<and> \<not> is_space (last u))"
  shows "strip u = u"
proof (cases "u = []")
  case True
  then show ?thesis by (simp add: strip_def rstrip_def lstrip_def)
next
  case False
  with assms have h: "\<not> is_space (hd u)" and l: "\<not> is_space (last u)" by auto
  have 1: "lstrip u = u" using h False by (cases u) (auto simp: lstrip_def)
  have "hd (rev u) = last u" using False by (simp add: hd_rev)
  then have "dropWhile is_space (rev u) = rev u" using l False
    by (simp add: dropWhile_eq_self_iff)
  then show ?thesis using 1 by (simp add: strip_def rstrip_def)
qed

lemma strip_idem: "strip (strip s) = strip s"
  using strip_fixed[of "strip s"] strip_ends[of s] by blast

lemma visit_residue_cong:
  "hetfield r = hetfield r' \<Longrightarrow> strip (resname r) = strip (resname r') \<Longrightarrow>
   visit_residue r st = visit_residue r' st"
  by (simp add: visit_residue_def)

lemma fold_visit_cong:
  "list_all2 (\<lambda>r r'. hetfield r = hetfield r' \<and> strip (resname r) = strip (resname r')) rs rs' \<Longrightarrow>
   fold visit_residue rs st = fold visit_residue rs' st"
proof (induction rs rs' arbitrary: st rule: list_all2_induct)
  case Nil
  show ?case by simp
next
  case (Cons r rs r' rs')
  then show ?case using visit_residue_cong[of r r'] by simp
qed

lemma walk_structure_cong:
  "list_all2 (\<lambda>r r'. hetfield r = hetfield r' \<and> strip (resname r) = strip (resname r'))
     (residues_of s) (residues_of s') \<Longrightarrow> walk_structure s = walk_structure s'"
  by (simp add: walk_structure_flat fold_visit_cong)

lemma residues_of_map: "residues_of (map (map (map g)) s) = map g (residues_of s)"
  by (simp add: residues_of_def map_concat)

lemma walk_structure_atoms:
  "walk_structure (map (map (map (\<lambda>r. r\<lparr>atoms := f r\<rparr>))) s) = walk_structure s"
  by (rule walk_structure_cong) (simp add: residues_of_map list_all2_map1 list_all2_same)

lemma count_candidates:
  "count_list (candidate_names rs) name =
     length (filter (\<lambda>r. hetfield r \<noteq> '' '' \<and> strip (resname r) = name \<and> name \<notin> SOLVENTS) rs)"
  by (induction rs) (auto simp: candidate_names_def is_candidate_def)

lemma walk_keys: "fst ` set (residue_counts (walk_structure s)) = set (ligands (walk_structure s))"
  by (simp add: walk_counts walk_ligands keys_counter_of)

section \<open>Properties of the normaliser\<close>

lemma newline_not_word: "\<not> is_word (CHR 0x0A)"
  by code_simp

lemma newline_is_space: "is_space (CHR 0x0A)"
  by code_simp

lemma alnum_is_word: "is_alnum c \<Longrightarrow> is_word c"
  by (simp add: is_word_def Let_def)

lemma alnum_not_space: "is_alnum c \<Longrightarrow> \<not> is_space c"
  by (auto simp: is_alnum_def is_space_def Let_def)

lemma upper_char_alnum: "is_alnum c \<Longrightarrow> \<exists>c'. upper_char c = [c'] \<and> is_alnum c'"
  by (auto simp: is_alnum_def upper_char_def Let_def code_point_def)

lemma upper_alnum: "list_all is_alnum t \<Longrightarrow> list_all is_alnum (upper t) \<and> length (upper t) = length t"
proof (induction t)
  case Nil
  show ?case by (simp add: upper_def)
next
  case (Cons c t)
  then obtain c' where "upper_char c = [c']" "is_alnum c'" using upper_char_alnum[of c] by auto
  with Cons show ?case by (simp add: upper_def)
qed

lemma strip_no_space: 
  assumes "list_all (\<lambda>c. \<not> is_space c) u"
  shows "strip u = u"
proof (rule strip_fixed)
  show "u = [] \<or> (\<not> is_space (hd u) \<and> \<not> is_space (last u))"
  proof (cases "u = []")
    case True then show ?thesis by simp
  next
    case False
    then have "hd u \<in> set u" "last u \<in> set u" by simp_all
    with assms show ?thesis by (simp add: list_all_iff)
  qed
qed

lemma match_w4_Some: "match_w4 s = Some t \<longleftrightarrow> (4 \<le> length s \<and> list_all is_word (take 4 s) \<and> t = take 4 s)"
  by (auto simp: match_w4_def)

lemma match_w4_None: "match_w4 s = None \<longleftrightarrow> \<not> (4 \<le> length s \<and> list_all is_word (take 4 s))"
  by (auto simp: match_w4_def)

lemma match_w4_prefix:
  "(4 \<le> length s \<and> list_all is_word (take 4 s) \<and> P (drop 4 s)) \<longleftrightarrow>
   (\<exists>tok rest. s = tok @ rest \<and> length tok = 4 \<and> list_all is_word tok \<and> P rest)"
proof
  assume a: "4 \<le> length s \<and> list_all is_word (take 4 s) \<and> P (drop 4 s)"
  have "s = take 4 s @ drop 4 s" by simp
  moreover have "length (take 4 s) = 4" using a by simp
  ultimately show "\<exists>tok rest. s = tok @ rest \<and> length tok = 4 \<and> list_all is_word tok \<and> P rest"
    using a by blast
next
  assume "\<exists>tok rest. s = tok @ rest \<and> length tok = 4 \<and> list_all is_word tok \<and> P rest"
  then obtain tok rest where "s = tok @ rest" "length tok = 4" "list_all is_word tok" "P rest" by blast
  then show "4 \<le> length s \<and> list_all is_word (take 4 s) \<and> P (drop 4 s)" by simp
qed

lemma search_w4_None:
  "search_w4 s = None \<longleftrightarrow>
     \<not> (\<exists>pre tok post. s = pre @ tok @ post \<and> length tok = 4 \<and> list_all is_word tok)"
proof (induction s)
  case Nil
  show ?case by simp
next
  case (Cons c cs)
  have here: "match_w4 (c # cs) = None \<longleftrightarrow>
      \<not> (\<exists>tok post. c # cs = tok @ post \<and> length tok = 4 \<and> list_all is_word tok)"
    using match_w4_prefix[of "c # cs" "\<lambda>_. True"] by (simp add: match_w4_None)
  have split: "(\<exists>pre tok post. c # cs = pre @ tok @ post \<and> length tok = 4 \<and> list_all is_word tok) \<longleftrightarrow>
      (\<exists>tok post. c # cs = tok @ post \<and> length tok = 4 \<and> list_all is_word tok) \<or>
      (\<exists>pre tok post. cs = pre @ tok @ post \<and> length tok = 4 \<and> list_all is_word tok)"
    (is "?L \<longleftrightarrow> ?A \<or> ?B")
  proof
    assume ?L
    then obtain pre tok post where e: "c # cs = pre @ tok @ post" "length tok = 4" "list_all is_word tok"
      by blast
    show "?A \<or> ?B"
    proof (cases pre)
      case Nil
      with e show ?thesis by auto
    next
      case (Cons a pre')
      with e have "cs = pre' @ tok @ post" by simp
      with e show ?thesis by blast
    qed
  next
    assume "?A \<or> ?B"
    then show ?L
    proof
      assume ?A
      then obtain tok post where "c # cs = [] @ tok @ post" "length tok = 4" "list_all is_word tok" by auto
      then show ?L by blast
    next
      assume ?B
      then obtain pre tok post where "c # cs = (c # pre) @ tok @ post" "length tok = 4" "list_all is_word tok"
        by auto
      then show ?L by blast
    qed
  qed
  have "search_w4 (c # cs) = None \<longleftrightarrow> match_w4 (c # cs) = None \<and> search_w4 cs = None"
    by (simp split: option.splits)
  then show ?case using here split Cons by simp
qed

lemma search_w4_end_suffix:
  assumes "length tok = 4" "list_all is_word tok"
  shows "search_w4_end (pre @ tok) = Some tok"
proof (induction pre)
  case Nil
  from assms have "match_w4 tok = Some tok" by (simp add: match_w4_def)
  moreover from assms obtain c cs where "tok = c # cs" by (cases tok) auto
  ultimately show ?case using assms by (simp add: at_dollar_def)
next
  case (Cons c pre)
  have "\<not> at_dollar (drop 4 (c # pre @ tok))"
  proof
    assume d: "at_dollar (drop 4 (c # pre @ tok))"
    have len: "length (drop 4 (c # pre @ tok)) = length pre + 1" using assms by simp
    with d have eq: "drop 4 (c # pre @ tok) = [CHR 0x0A]" by (auto simp: at_dollar_def)
    have "tok \<noteq> []" using assms by auto
    then have "last (c # pre @ tok) = last tok" by simp
    moreover have "last (drop 4 (c # pre @ tok)) = last (c # pre @ tok)"
      using len by (intro last_drop) simp
    ultimately have "last tok = CHR 0x0A" using eq by simp
    moreover have "last tok \<in> set tok" using \<open>tok \<noteq> []\<close> by simp
    ultimately show False using assms newline_not_word by (auto simp: list_all_iff)
  qed
  then show ?case using Cons by (simp split: option.splits)
qed

lemma search_w4_end_None:
  assumes nl: "s = [] \<or> last s \<noteq> CHR 0x0A"
  shows "search_w4_end s = None \<longleftrightarrow>
     \<not> (\<exists>pre tok. s = pre @ tok \<and> length tok = 4 \<and> list_all is_word tok)"
proof
  assume n: "search_w4_end s = None"
  show "\<not> (\<exists>pre tok. s = pre @ tok \<and> length tok = 4 \<and> list_all is_word tok)"
  proof
    assume "\<exists>pre tok. s = pre @ tok \<and> length tok = 4 \<and> list_all is_word tok"
    then obtain pre tok where "s = pre @ tok" "length tok = 4" "list_all is_word tok" by blast
    then have "search_w4_end s = Some tok" using search_w4_end_suffix by simp
    with n show False by simp
  qed
next
  assume no: "\<not> (\<exists>pre tok. s = pre @ tok \<and> length tok = 4 \<and> list_all is_word tok)"
  have "search_w4_end (drop k s) = None" for k
  proof (induction "length s - k" arbitrary: k)
    case 0
    then show ?case by simp
  next
    case (Suc n)
    then have k: "k < length s" by simp
    then obtain c cs where d: "drop k s = c # cs" by (cases "drop k s") auto
    then have cs: "cs = drop (Suc k) s" by (metis drop_Suc drop_drop list.sel(3) tl_drop plus_1_eq_Suc drop_Suc_Cons Cons_nth_drop_Suc k list.inject)
    have ih: "search_w4_end cs = None" using Suc(1)[of "Suc k"] Suc(2) cs by simp
    have "\<not> (match_w4 (c # cs) \<noteq> None \<and> at_dollar (drop 4 (c # cs)))"
    proof
      assume a: "match_w4 (c # cs) \<noteq> None \<and> at_dollar (drop 4 (c # cs))"
      then have m: "4 \<le> length (c # cs)" "list_all is_word (take 4 (c # cs))"
        by (simp_all add: match_w4_None)
      have "drop 4 (c # cs) = []"
      proof (rule ccontr)
        assume "drop 4 (c # cs) \<noteq> []"
        with a have e: "drop 4 (c # cs) = [CHR 0x0A]" by (simp add: at_dollar_def)
        have "drop 4 (c # cs) = drop (4 + k) s" using d by (metis drop_drop)
        with e have e2: "drop (4 + k) s = [CHR 0x0A]" by simp
        then have "4 + k < length s" by (metis drop_all leI list.distinct(1))
        then have "last (drop (4 + k) s) = last s" by (rule last_drop)
        with e2 have "last s = CHR 0x0A" by simp
        moreover have "s \<noteq> []" using k by auto
        ultimately show False using nl by simp
      qed
      then have "c # cs = take 4 (c # cs)" by (metis append_Nil2 append_take_drop_id)
      then have "s = take k s @ take 4 (c # cs)" using d by (metis append_take_drop_id)
      moreover have "length (take 4 (c # cs)) = 4" using m by simp
      ultimately show False using no m by blast
    qed
    then show ?case using ih d by (auto split: option.splits)
  qed
  from this[of 0] show "search_w4_end s = None" by simp
qed

lemma clean_cell_no_newline: "clean_cell raw = [] \<or> last (clean_cell raw) \<noteq> CHR 0x0A"
  using strip_ends[of "remove_char (CHR 0xA0) raw"] newline_is_space
  by (auto simp: clean_cell_def)

lemma normalize_None:
  "normalize_pdb_id raw = None \<longleftrightarrow>
     \<not> (\<exists>pre tok. clean_cell raw = pre @ tok \<and> length tok = 4 \<and> list_all is_word tok)"
  using search_w4_end_None[OF clean_cell_no_newline, of raw]
  by (simp add: normalize_pdb_id_def extract_pdb_id_def)

lemma normalize_trailing_token:
  assumes "clean_cell raw = pre @ tok" "length tok = 4" "list_all is_alnum tok"
  shows "normalize_pdb_id raw = Some (upper tok)"
proof -
  have w: "list_all is_word tok" using assms(3) alnum_is_word by (simp add: list_all_iff)
  have "list_all (\<lambda>c. \<not> is_space c) (upper tok)"
    using upper_alnum[OF assms(3)] alnum_not_space by (simp add: list_all_iff)
  then have "strip (upper tok) = upper tok" by (rule strip_no_space)
  then show ?thesis
    using search_w4_end_suffix[OF assms(2) w, of pre] assms(1)
    by (simp add: normalize_pdb_id_def extract_pdb_id_def)
qed

section \<open>Properties of the drivers\<close>

lemma try_extract_world:
  "snd (try_extract remote parse pid w) = w\<lparr>requests := requests w @ [download_url pid]\<rparr>"
  by (simp add: try_extract_def http_get_def split: sum.splits)

lemma try_extract_outcome: "fst (try_extract remote parse pid w) = outcome_of remote parse pid"
  by (simp add: outcome_of_def try_extract_def http_get_def split: sum.splits)

lemma process_row_full_results:
  "results (process_row_full remote parse r b) =
     results b @ [case outcome_of remote parse (PDB_ID r) of
                    Inr flds \<Rightarrow> ok_row r flds | Inl e \<Rightarrow> error_row r e]"
proof -
  obtain oc w' where t: "try_extract remote parse (PDB_ID r) (world b) = (oc, w')"
    by (cases "try_extract remote parse (PDB_ID r) (world b)")
  then have "outcome_of remote parse (PDB_ID r) = oc"
    using try_extract_outcome[of remote parse "PDB_ID r" "world b"] by simp
  then show ?thesis using t by (cases oc) (simp_all add: process_row_full_def)
qed

lemma process_row_ache_results:
  "results (process_row_ache remote parse r b) =
     results b @ (case outcome_of remote parse (PDB_ID r) of
                    Inr flds \<Rightarrow> [ok_row r flds] | Inl e \<Rightarrow> [])"
proof -
  obtain oc w' where t: "try_extract remote parse (PDB_ID r) (world b) = (oc, w')"
    by (cases "try_extract remote parse (PDB_ID r) (world b)")
  then have "outcome_of remote parse (PDB_ID r) = oc"
    using try_extract_outcome[of remote parse "PDB_ID r" "world b"] by simp
  then show ?thesis using t by (cases oc) (simp_all add: process_row_ache_def)
qed

lemma fold_full_results:
  "results (fold (process_row_full remote parse) rs b) =
     results b @ map (\<lambda>r. case outcome_of remote parse (PDB_ID r) of
                            Inr flds \<Rightarrow> ok_row r flds | Inl e \<Rightarrow> error_row r e) rs"
  by (induction rs arbitrary: b) (simp_all add: process_row_full_results)

lemma fold_ache_results:
  "results (fold (process_row_ache remote parse) rs b) =
     results b @ concat (map (\<lambda>r. case outcome_of remote parse (PDB_ID r) of
                            Inr flds \<Rightarrow> [ok_row r flds] | Inl e \<Rightarrow> []) rs)"
  by (induction rs arbitrary: b) (simp_all add: process_row_ache_results)

lemma process_row_split_requests:
  "requests (split_world (process_row_split remote parse r b)) =
     requests (split_world b) @ [download_url (PDB_ID r)]"
proof -
  obtain oc w' where t: "try_extract remote parse (PDB_ID r) (split_world b) = (oc, w')"
    by (cases "try_extract remote parse (PDB_ID r) (split_world b)")
  then have "w' = (split_world b)\<lparr>requests := requests (split_world b) @ [download_url (PDB_ID r)]\<rparr>"
    using try_extract_world[of remote parse "PDB_ID r" "split_world b"] by simp
  then show ?thesis using t by (cases oc) (simp_all add: process_row_split_def)
qed

lemma fold_split_requests:
  "requests (split_world (fold (process_row_split remote parse) rs b)) =
     requests (split_world b) @ map (\<lambda>r. download_url (PDB_ID r)) rs"
  by (induction rs arbitrary: b) (simp_all add: process_row_split_requests)

lemma length_concat_case:
  "length (concat (map (\<lambda>r. case f r of Inr x \<Rightarrow> [g r x] | Inl e \<Rightarrow> []) rs)) =
   length (filter (\<lambda>r. isl (f r) = False) rs)"
  by (induction rs) (auto split: sum.splits)

section \<open>Properties of the line scan\<close>

lemma scan_line_names:
  "m \<in> scan_line line ligs \<Longrightarrow> m \<in> ligs \<or> (m \<noteq> [] \<and> (\<exists>t. m = strip t))"
  by (auto simp: scan_line_def Let_def split: if_splits)

lemma fold_scan_line_names:
  "m \<in> fold scan_line lines ligs \<Longrightarrow> m \<in> ligs \<or> (m \<noteq> [] \<and> (\<exists>t. m = strip t))"
proof (induction lines arbitrary: ligs)
  case Nil
  then show ?case by simp
next
  case (Cons l lines)
  then have "m \<in> scan_line l ligs \<or> (m \<noteq> [] \<and> (\<exists>t. m = strip t))" by simp
  then show ?case using scan_line_names[of m l ligs] by blast
qed

lemma scan_pdb_lines_stripped:
  assumes "m \<in> scan_pdb_lines lines"
  shows "strip m = m \<and> m \<noteq> [] \<and> \<not> is_space (hd m) \<and> \<not> is_space (last m)"
proof -
  from assms fold_scan_line_names[of m lines "{}"] obtain t where m: "m \<noteq> []" "m = strip t"
    by (auto simp: scan_pdb_lines_def)
  then show ?thesis using strip_idem[of t] strip_ends[of t] by simp
qed

section \<open>The drivers on two rows\<close>

text \<open>Two rows, the second of which the server does not have, through both drivers.\<close>

lemma run_full_run_ache_example:
  "map out_ligand (results (run_full remote_7RUI parse_A
      [\<lparr>unique_id = ''AChE_1 '', pdb_id_cell = ''AChE 7RUI''\<rparr>,
       \<lparr>unique_id = ''AChE_2'', pdb_id_cell = ''0XXX''\<rparr>] world_0)) =
     [''7QZ'', ''Error: 404 Client Error: Not Found for url: https://files.rcsb.org/download/0XXX.pdb''] \<and>
   map out_ligand (results (run_ache remote_7RUI parse_A
      [\<lparr>unique_id = ''AChE_1 '', pdb_id_cell = ''AChE 7RUI''\<rparr>,
       \<lparr>unique_id = ''AChE_2'', pdb_id_cell = ''0XXX''\<rparr>] world_0)) = [''7QZ'']"
  by code_simp

text \<open>The output row of scenario A.\<close>

lemma run_ache_row_example:
  "results (run_ache remote_7RUI parse_A
      [\<lparr>unique_id = ''AChE_1 '', pdb_id_cell = ''AChE 7RUI''\<rparr>] world_0) =
   [\<lparr>out_unique_id = ''AChE_1'', out_pdb_id_cell = ''AChE 7RUI'', out_PDB_ID = Some ''7RUI'',
     out_ligand = ''7QZ'', out_candidates = ''7QZ'', out_residues = ''7QZ, HOH''\<rparr>]"
  by code_simp

section \<open>Occurrences, console and requests\<close>

lemma count_candidate_names:
  "count_list (candidate_names rs) name =
     length (filter (\<lambda>r. is_candidate r \<and> strip (resname r) = name) rs)"
  by (induction rs) (auto simp: candidate_names_def)

lemma walk_count_occurrences:
  "counter_get (residue_counts (walk_structure s)) name = occurrences s name"
  by (simp add: walk_count_get walk_ligands count_candidate_names occurrences_def)

lemma candidate_names_set:
  "set (candidate_names rs) = (\<lambda>r. strip (resname r)) ` {r \<in> set rs. is_candidate r}"
  by (auto simp: candidate_names_def)

lemma process_row_full_console:
  "console (process_row_full remote parse r b) =
     console b @ (case outcome_of remote parse (PDB_ID r) of
                    Inr flds \<Rightarrow> []
                  | Inl e \<Rightarrow> [''Error fetching '' @ format_id (PDB_ID r) @ '': '' @ e])"
proof -
  obtain oc w' where t: "try_extract remote parse (PDB_ID r) (world b) = (oc, w')"
    by (cases "try_extract remote parse (PDB_ID r) (world b)")
  then have "outcome_of remote parse (PDB_ID r) = oc"
    using try_extract_outcome[of remote parse "PDB_ID r" "world b"] by simp
  then show ?thesis using t by (cases oc) (simp_all add: process_row_full_def)
qed

lemma process_row_ache_console:
  "console (process_row_ache remote parse r b) =
     console b @ (case outcome_of remote parse (PDB_ID r) of
                    Inr flds \<Rightarrow> []
                  | Inl e \<Rightarrow> [''Skipping '' @ format_id (PDB_ID r) @ '' due to error: '' @ e])"
proof -
  obtain oc w' where t: "try_extract remote parse (PDB_ID r) (world b) = (oc, w')"
    by (cases "try_extract remote parse (PDB_ID r) (world b)")
  then have "outcome_of remote parse (PDB_ID r) = oc"
    using try_extract_outcome[of remote parse "PDB_ID r" "world b"] by simp
  then show ?thesis using t by (cases oc) (simp_all add: process_row_ache_def)
qed

lemma process_row_full_requests:
  "requests (world (process_row_full remote parse r b)) =
     requests (world b) @ [download_url (PDB_ID r)]"
proof -
  obtain oc w' where t: "try_extract remote parse (PDB_ID r) (world b) = (oc, w')"
    by (cases "try_extract remote parse (PDB_ID r) (world b)")
  then have "w' = (world b)\<lparr>requests := requests (world b) @ [download_url (PDB_ID r)]\<rparr>"
    using try_extract_world[of remote parse "PDB_ID r" "world b"] by simp
  then show ?thesis using t by (cases oc) (simp_all add: process_row_full_def)
qed

lemma process_row_ache_requests:
  "requests (world (process_row_ache remote parse r b)) =
     requests (world b) @ [download_url (PDB_ID r)]"
proof -
  obtain oc w' where t: "try_extract remote parse (PDB_ID r) (world b) = (oc, w')"
    by (cases "try_extract remote parse (PDB_ID r) (world b)")
  then have "w' = (world b)\<lparr>requests := requests (world b) @ [download_url (PDB_ID r)]\<rparr>"
    using try_extract_world[of remote parse "PDB_ID r" "world b"] by simp
  then show ?thesis using t by (cases oc) (simp_all add: process_row_ache_def)
qed

lemma fold_full_console:
  "console (fold (process_row_full remote parse) rs b) =
     console b @ concat (map (\<lambda>r. case outcome_of remote parse (PDB_ID r) of
                    Inr flds \<Rightarrow> []
                  | Inl e \<Rightarrow> [''Error fetching '' @ format_id (PDB_ID r) @ '': '' @ e]) rs)"
  by (induction rs arbitrary: b) (simp_all add: process_row_full_console)

lemma fold_ache_console:
  "console (fold (process_row_ache remote parse) rs b) =
     console b @ concat (map (\<lambda>r. case outcome_of remote parse (PDB_ID r) of
                    Inr flds \<Rightarrow> []
                  | Inl e \<Rightarrow> [''Skipping '' @ format_id (PDB_ID r) @ '' due to error: '' @ e]) rs)"
  by (induction rs arbitrary: b) (simp_all add: process_row_ache_console)

lemma fold_full_requests:
  "requests (world (fold (process_row_full remote parse) rs b)) =
     requests (world b) @ map (\<lambda>r. download_url (PDB_ID r)) rs"
  by (induction rs arbitrary: b) (simp_all add: process_row_full_requests)

lemma fold_ache_requests:
  "requests (world (fold (process_row_ache remote parse) rs b)) =
     requests (world b) @ map (\<lambda>r. download_url (PDB_ID r)) rs"
  by (induction rs arbitrary: b) (simp_all add: process_row_ache_requests)

lemma fold_scan_line:
  "fold scan_line lines ligs =
     ligs \<union> {strip (slice 17 20 l) | l. l \<in> set lines \<and> startswith l ''HETATM'' \<and>
               strip (slice 17 20 l) \<noteq> [] \<and> upper (strip (slice 17 20 l)) \<notin> exclude_resnames}"
proof (induction lines arbitrary: ligs)
  case Nil
  show ?case by simp
next
  case (Cons a lines)
  have "scan_line a ligs =
      ligs \<union> {strip (slice 17 20 l) | l. l = a \<and> startswith l ''HETATM'' \<and>
               strip (slice 17 20 l) \<noteq> [] \<and> upper (strip (slice 17 20 l)) \<notin> exclude_resnames}"
    by (auto simp: scan_line_def Let_def)
  then show ?case unfolding fold_simps Cons by auto
qed

lemma scan_pdb_lines_eq:
  "scan_pdb_lines lines =
     {strip (slice 17 20 l) | l. l \<in> set lines \<and> startswith l ''HETATM'' \<and>
        strip (slice 17 20 l) \<noteq> [] \<and> upper (strip (slice 17 20 l)) \<notin> exclude_resnames}"
  by (simp add: scan_pdb_lines_def fold_scan_line)

lemma scan_line_cong:
  "startswith l ''HETATM'' = startswith l' ''HETATM'' \<Longrightarrow>
   strip (slice 17 20 l) = strip (slice 17 20 l') \<Longrightarrow> scan_line l ligs = scan_line l' ligs"
  by (simp add: scan_line_def)

lemma fold_scan_line_cong:
  "list_all2 (\<lambda>l l'. startswith l ''HETATM'' = startswith l' ''HETATM'' \<and>
                      strip (slice 17 20 l) = strip (slice 17 20 l')) ls ls' \<Longrightarrow>
   fold scan_line ls ligs = fold scan_line ls' ligs"
proof (induction ls ls' arbitrary: ligs rule: list_all2_induct)
  case Nil
  show ?case by simp
next
  case (Cons l ls l' ls')
  then show ?case using scan_line_cong[of l l'] by simp
qed

lemma walk_ligands_set:
  "set (ligands (walk_structure s)) =
     {strip (resname r) | r. r \<in> set (residues_of s) \<and> hetfield r \<noteq> '' '' \<and>
        strip (resname r) \<notin> SOLVENTS}"
  by (auto simp: walk_ligands candidate_names_def is_candidate_def)

section \<open>The claims\<close>

text \<open>
  Claim C1. The ligand candidates are the stripped names of the heteroatom residues
  outside the exclusion set, and the counter of a name is the number of such residues
  in the residue list. With no candidate the primary ligand is the sentinel \<open>None\<close>;
  otherwise it is one of the candidates, and no candidate occurs in more residues.
\<close>

theorem primary_ligand_most_frequent:
  "set (ligands (walk_structure s)) =
     (\<lambda>r. strip (resname r)) ` {r \<in> set (residues_of s). is_candidate r} \<and>
   (\<forall>name. counter_get (residue_counts (walk_structure s)) name = occurrences s name) \<and>
   (set (ligands (walk_structure s)) = {} \<longrightarrow> primary_ligand s = Inr ''None'') \<and>
   (set (ligands (walk_structure s)) \<noteq> {} \<longrightarrow>
      (\<exists>p. primary_ligand s = Inr p \<and> p \<in> set (ligands (walk_structure s)) \<and>
           (\<forall>q \<in> set (ligands (walk_structure s)). occurrences s q \<le> occurrences s p) \<and>
           (\<forall>q \<in> set (ligands (walk_structure s)).
               counter_get (residue_counts (walk_structure s)) q
                 \<le> counter_get (residue_counts (walk_structure s)) p)))"
proof (intro conjI impI allI)
  show "set (ligands (walk_structure s)) =
     (\<lambda>r. strip (resname r)) ` {r \<in> set (residues_of s). is_candidate r}"
    by (simp add: walk_ligands candidate_names_set)
  show "counter_get (residue_counts (walk_structure s)) name = occurrences s name" for name
    by (rule walk_count_occurrences)
next
  assume "set (ligands (walk_structure s)) = {}"
  then show "primary_ligand s = Inr ''None''" by (simp add: primary_none)
next
  assume "set (ligands (walk_structure s)) \<noteq> {}"
  then have "ligands (walk_structure s) \<noteq> []" by auto
  from primary_some[OF this] obtain p where
    p: "primary_ligand s = Inr p" "p \<in> set (ligands (walk_structure s))"
    and m: "\<forall>q \<in> set (ligands (walk_structure s)).
               counter_get (residue_counts (walk_structure s)) q
                 \<le> counter_get (residue_counts (walk_structure s)) p" by blast
  from m have "\<forall>q \<in> set (ligands (walk_structure s)). occurrences s q \<le> occurrences s p"
    by (simp add: walk_count_occurrences)
  with p m show "\<exists>p. primary_ligand s = Inr p \<and> p \<in> set (ligands (walk_structure s)) \<and>
           (\<forall>q \<in> set (ligands (walk_structure s)). occurrences s q \<le> occurrences s p) \<and>
           (\<forall>q \<in> set (ligands (walk_structure s)).
               counter_get (residue_counts (walk_structure s)) q
                 \<le> counter_get (residue_counts (walk_structure s)) p)" by blast
qed

theorem primary_ligand_most_frequent_witness:
  "set (ligands (walk_structure [])) = {} \<and> primary_ligand [] = Inr ''None'' \<and>
   set (ligands (walk_structure scenario_C)) = {''JQ1'', ''UNL''} \<and>
   occurrences scenario_C ''JQ1'' = 2 \<and> occurrences scenario_C ''UNL'' = 5 \<and>
   counter_get (residue_counts (walk_structure scenario_C)) ''UNL'' = 5 \<and>
   primary_ligand scenario_C = Inr ''UNL''"
proof -
  let ?st = "walk_structure scenario_C"
  have e: "set (ligands (walk_structure [])) = {}" by code_simp
  have l: "set (ligands ?st) = {''JQ1'', ''UNL''}" by code_simp
  have oj: "occurrences scenario_C ''JQ1'' = 2" by code_simp
  have ou: "occurrences scenario_C ''UNL'' = 5" by code_simp
  from primary_ligand_most_frequent[of "[]"] e have n: "primary_ligand [] = Inr ''None''" by blast
  note t = primary_ligand_most_frequent[of scenario_C]
  from t have "counter_get (residue_counts ?st) ''UNL'' = occurrences scenario_C ''UNL''" by blast
  then have cu: "counter_get (residue_counts ?st) ''UNL'' = 5" unfolding ou .
  have uin: "''UNL'' \<in> set (ligands ?st)" unfolding l by (rule insertI2) (rule insertI1)
  have ne: "set (ligands ?st) \<noteq> {}" unfolding l by (rule insert_not_empty)
  from t ne obtain p where
    p: "primary_ligand scenario_C = Inr p" "p \<in> set (ligands ?st)"
    and m: "\<forall>q \<in> set (ligands ?st). occurrences scenario_C q \<le> occurrences scenario_C p" by blast
  from m uin have "occurrences scenario_C ''UNL'' \<le> occurrences scenario_C p" by blast
  then have five: "5 \<le> occurrences scenario_C p" unfolding ou .
  from p(2) have pc: "p = ''JQ1'' \<or> p = ''UNL''" unfolding l by blast
  have "p \<noteq> ''JQ1''"
  proof
    assume "p = ''JQ1''"
    with five have "5 \<le> occurrences scenario_C ''JQ1''" by (simp only:)
    then show False unfolding oj by simp
  qed
  with pc have "p = ''UNL''" by blast
  with p(1) have "primary_ligand scenario_C = Inr ''UNL''" by (simp only:)
  with e n l oj ou cu show ?thesis by blast
qed

text \<open>
  Claim C2 fails in \<open>realligand_mapping.py\<close>, whose exclusion set lacks \<open>WAT\<close>, a
  name the other copies exclude: a heteroatom line of a water named \<open>WAT\<close> puts that
  name among the ligands, and the column \<open>Ligand_Resname\<close> receives it.
\<close>

theorem realligand_keeps_water:
  "''WAT'' \<in> SOLVENTS \<and> ''WAT'' \<notin> exclude_resnames \<and>
   scan_pdb_lines [wat_line] = {''WAT''} \<and>
   ligand_resname (scan_pdb_lines [wat_line]) = Some ''WAT''"
  by code_simp

text \<open>
  Claim C3. Every ligand candidate is among the residue names recorded; the stripped
  name of every residue of the structure is recorded, and no name of the exclusion set
  is a candidate.
\<close>

theorem candidates_subset_all_residues:
  "set (ligands (walk_structure s)) \<subseteq> all_residues (walk_structure s) \<and>
   (\<forall>r \<in> set (residues_of s). strip (resname r) \<in> all_residues (walk_structure s)) \<and>
   SOLVENTS \<inter> set (ligands (walk_structure s)) = {}"
  using candidate_names_subset[of "residues_of s"] candidate_names_no_solvent[of "residues_of s"]
  by (auto simp: walk_ligands walk_all_residues)

theorem candidates_subset_all_residues_witness:
  "''HOH'' \<in> all_residues (walk_structure scenario_A) \<and>
   ''HOH'' \<notin> set (ligands (walk_structure scenario_A)) \<and>
   ''7QZ'' \<in> set (ligands (walk_structure scenario_A)) \<and>
   ''7QZ'' \<in> all_residues (walk_structure scenario_A)"
proof -
  have r: "\<lparr>hetfield = ''W'', resname = ''HOH'', atoms = [''O'']\<rparr> \<in> set (residues_of scenario_A)"
    by (simp add: scenario_A_def residues_of_def)
  have s: "strip ''HOH'' = ''HOH''" by code_simp
  have h: "''HOH'' \<in> SOLVENTS" by (simp add: SOLVENTS_def)
  have q: "''7QZ'' \<in> set (ligands (walk_structure scenario_A))" by code_simp
  note t = candidates_subset_all_residues[of scenario_A]
  from t r have "strip (resname \<lparr>hetfield = ''W'', resname = ''HOH'', atoms = [''O'']\<rparr>)
      \<in> all_residues (walk_structure scenario_A)" by blast
  then have a: "''HOH'' \<in> all_residues (walk_structure scenario_A)" using s by simp
  from t h have b: "''HOH'' \<notin> set (ligands (walk_structure scenario_A))" by blast
  from t q have c: "''7QZ'' \<in> all_residues (walk_structure scenario_A)" by blast
  from a b c q show ?thesis by blast
qed

text \<open>
  Claim C4 fails in \<open>extract_ligands_split_dual.py\<close>, whose pattern lacks the anchor of
  the other copies: on a cell with a prefix of four word characters it returns the
  prefix, not the trailing code. The normaliser of \<open>ache_only_extract.py\<close> returns
  the trailing code (lemma \<open>normalize_trailing_token\<close>).
\<close>

theorem split_dual_takes_first_token:
  "extract_pdb_id_split ''AChE 4EY7'' = Some ''ACHE'' \<and>
   normalize_pdb_id ''AChE 4EY7'' = Some ''4EY7''"
  by code_simp

text \<open>
  Claim C5, as stated, fails: a cell without a code gives the missing value and no
  error, the loop of \<open>ache_only_extract.py\<close> then requests the file \<open>nan.pdb\<close>; and a
  cell ending in four word characters that are not all alphanumeric is given a code.
\<close>

theorem missing_identifier_counterexample:
  "normalize_pdb_id ''7RUI-A'' = None \<and>
   requests (world (run_ache no_remote parse_A
       [\<lparr>unique_id = ''AChE_1'', pdb_id_cell = ''7RUI-A''\<rparr>] world_0))
     = [''https://files.rcsb.org/download/nan.pdb''] \<and>
   \<not> list_all is_alnum ''AB_D'' \<and>
   normalize_pdb_id ''AB_D'' = Some ''AB_D''"
  by code_simp

text \<open>
  Claim C5, amended. The normaliser of \<open>ache_only_extract.py\<close> gives the missing value
  exactly when the cleaned cell does not end in four word characters; the one of
  \<open>extract_ligands_split_dual.py\<close> exactly when the cell holds no run of four word
  characters, and that script drops such rows before its loop: every row kept has a
  code, and the requests issued are those of the rows kept, one each, in order.
\<close>

theorem missing_identifier_dropped:
  "(normalize_pdb_id raw = None \<longleftrightarrow>
      \<not> (\<exists>pre tok. clean_cell raw = pre @ tok \<and> length tok = 4 \<and> list_all is_word tok)) \<and>
   (extract_pdb_id_split raw = None \<longleftrightarrow>
      \<not> (\<exists>pre tok post. raw = pre @ tok @ post \<and> length tok = 4 \<and> list_all is_word tok)) \<and>
   (\<forall>r \<in> set (dropna (map prepare_row_split rows)). PDB_ID r \<noteq> None) \<and>
   requests (split_world (run_split remote parse rows w)) =
     requests w @ map (\<lambda>r. download_url (PDB_ID r)) (dropna (map prepare_row_split rows))"
proof (intro conjI)
  show "normalize_pdb_id raw = None \<longleftrightarrow>
      \<not> (\<exists>pre tok. clean_cell raw = pre @ tok \<and> length tok = 4 \<and> list_all is_word tok)"
    by (rule normalize_None)
  show "extract_pdb_id_split raw = None \<longleftrightarrow>
      \<not> (\<exists>pre tok post. raw = pre @ tok @ post \<and> length tok = 4 \<and> list_all is_word tok)"
    using search_w4_None[of raw] by (simp add: extract_pdb_id_split_def)
  show "\<forall>r \<in> set (dropna (map prepare_row_split rows)). PDB_ID r \<noteq> None"
    by (simp add: dropna_def)
  show "requests (split_world (run_split remote parse rows w)) =
     requests w @ map (\<lambda>r. download_url (PDB_ID r)) (dropna (map prepare_row_split rows))"
    by (simp add: run_split_def fold_split_requests)
qed

theorem missing_identifier_dropped_witness:
  "extract_pdb_id_split ''??'' = None \<and>
   PDB_ID (prepare_row_split \<lparr>unique_id = ''BD2_1'', pdb_id_cell = ''7RUI''\<rparr>) \<noteq> None \<and>
   requests (split_world (run_split no_remote parse_A rows_split world_0))
     = [''https://files.rcsb.org/download/7RUI.pdb'']"
proof -
  note t = missing_identifier_dropped[of "''??''" rows_split no_remote parse_A world_0]
  have n: "extract_pdb_id_split ''??'' = None" by code_simp
  have m: "prepare_row_split \<lparr>unique_id = ''BD2_1'', pdb_id_cell = ''7RUI''\<rparr>
             \<in> set (dropna (map prepare_row_split rows_split))" by code_simp
  from t m have p: "PDB_ID (prepare_row_split \<lparr>unique_id = ''BD2_1'', pdb_id_cell = ''7RUI''\<rparr>) \<noteq> None"
    by blast
  have e: "requests world_0 @ map (\<lambda>r. download_url (PDB_ID r)) (dropna (map prepare_row_split rows_split))
            = [''https://files.rcsb.org/download/7RUI.pdb'']" by code_simp
  from t have "requests (split_world (run_split no_remote parse_A rows_split world_0)) =
     requests world_0 @ map (\<lambda>r. download_url (PDB_ID r)) (dropna (map prepare_row_split rows_split))"
    by blast
  then have "requests (split_world (run_split no_remote parse_A rows_split world_0))
     = [''https://files.rcsb.org/download/7RUI.pdb'']" unfolding e .
  with n p show ?thesis by blast
qed

text \<open>
  Claim C6, as stated, fails in \<open>ache_only_extract.py\<close>: a record whose request fails
  is printed to the console and leaves no row in the output table.
\<close>

theorem failed_row_counterexample:
  "results (run_ache no_remote parse_A [\<lparr>unique_id = ''AChE_2'', pdb_id_cell = ''0XXX''\<rparr>] world_0) = [] \<and>
   console (run_ache no_remote parse_A [\<lparr>unique_id = ''AChE_2'', pdb_id_cell = ''0XXX''\<rparr>] world_0) =
     [''Skipping 0XXX due to error: 404 Client Error: Not Found for url: https://files.rcsb.org/download/0XXX.pdb'']"
  by code_simp

text \<open>
  Claim C6, amended. Neither \<open>ligand_mapping_full.py\<close> nor \<open>ache_only_extract.py\<close>
  stops at a failed record: each requests every input row in order. The first prints
  the failure and writes one row for every input row, in order, a failed record as a
  row that carries the error message; the second prints the failure to the console and
  writes one row for every record that succeeded, in order, and none for a failed one.
\<close>

theorem batch_rows:
  "results (run_full remote parse rows w) =
     map (\<lambda>r. case outcome_of remote parse (PDB_ID r) of
                 Inr flds \<Rightarrow> ok_row r flds | Inl e \<Rightarrow> error_row r e) (map prepare_row rows) \<and>
   length (results (run_full remote parse rows w)) = length rows \<and>
   results (run_ache remote parse rows w) =
     concat (map (\<lambda>r. case outcome_of remote parse (PDB_ID r) of
                 Inr flds \<Rightarrow> [ok_row r flds] | Inl e \<Rightarrow> []) (map prepare_row rows)) \<and>
   length (results (run_ache remote parse rows w)) =
     length (filter (\<lambda>r. isl (outcome_of remote parse (PDB_ID r)) = False) (map prepare_row rows)) \<and>
   console (run_full remote parse rows w) =
     concat (map (\<lambda>r. case outcome_of remote parse (PDB_ID r) of
                 Inr flds \<Rightarrow> []
               | Inl e \<Rightarrow> [''Error fetching '' @ format_id (PDB_ID r) @ '': '' @ e])
             (map prepare_row rows)) \<and>
   console (run_ache remote parse rows w) =
     concat (map (\<lambda>r. case outcome_of remote parse (PDB_ID r) of
                 Inr flds \<Rightarrow> []
               | Inl e \<Rightarrow> [''Skipping '' @ format_id (PDB_ID r) @ '' due to error: '' @ e])
             (map prepare_row rows)) \<and>
   requests (world (run_full remote parse rows w)) =
     requests w @ map (\<lambda>r. download_url (PDB_ID r)) (map prepare_row rows) \<and>
   requests (world (run_ache remote parse rows w)) =
     requests w @ map (\<lambda>r. download_url (PDB_ID r)) (map prepare_row rows)"
proof (intro conjI)
  show f: "results (run_full remote parse rows w) =
     map (\<lambda>r. case outcome_of remote parse (PDB_ID r) of
                 Inr flds \<Rightarrow> ok_row r flds | Inl e \<Rightarrow> error_row r e) (map prepare_row rows)"
    by (simp add: run_full_def fold_full_results)
  show "length (results (run_full remote parse rows w)) = length rows"
    unfolding f by simp
  show a: "results (run_ache remote parse rows w) =
     concat (map (\<lambda>r. case outcome_of remote parse (PDB_ID r) of
                 Inr flds \<Rightarrow> [ok_row r flds] | Inl e \<Rightarrow> []) (map prepare_row rows))"
    by (simp add: run_ache_def fold_ache_results)
  show "length (results (run_ache remote parse rows w)) =
     length (filter (\<lambda>r. isl (outcome_of remote parse (PDB_ID r)) = False) (map prepare_row rows))"
    unfolding a by (rule length_concat_case)
  show "console (run_full remote parse rows w) =
     concat (map (\<lambda>r. case outcome_of remote parse (PDB_ID r) of
                 Inr flds \<Rightarrow> []
               | Inl e \<Rightarrow> [''Error fetching '' @ format_id (PDB_ID r) @ '': '' @ e])
             (map prepare_row rows))"
    by (simp add: run_full_def fold_full_console)
  show "console (run_ache remote parse rows w) =
     concat (map (\<lambda>r. case outcome_of remote parse (PDB_ID r) of
                 Inr flds \<Rightarrow> []
               | Inl e \<Rightarrow> [''Skipping '' @ format_id (PDB_ID r) @ '' due to error: '' @ e])
             (map prepare_row rows))"
    by (simp add: run_ache_def fold_ache_console)
  show "requests (world (run_full remote parse rows w)) =
     requests w @ map (\<lambda>r. download_url (PDB_ID r)) (map prepare_row rows)"
    by (simp add: run_full_def fold_full_requests)
  show "requests (world (run_ache remote parse rows w)) =
     requests w @ map (\<lambda>r. download_url (PDB_ID r)) (map prepare_row rows)"
    by (simp add: run_ache_def fold_ache_requests)
qed

theorem batch_rows_witness:
  "map out_ligand (results (run_full remote_7RUI parse_A rows_two world_0)) =
     [''Error: 404 Client Error: Not Found for url: https://files.rcsb.org/download/0XXX.pdb'', ''7QZ''] \<and>
   map out_ligand (results (run_ache remote_7RUI parse_A rows_two world_0)) = [''7QZ''] \<and>
   console (run_ache remote_7RUI parse_A rows_two world_0) =
     [''Skipping 0XXX due to error: 404 Client Error: Not Found for url: https://files.rcsb.org/download/0XXX.pdb''] \<and>
   requests (world (run_ache remote_7RUI parse_A rows_two world_0)) =
     [''https://files.rcsb.org/download/0XXX.pdb'', ''https://files.rcsb.org/download/7RUI.pdb'']"
proof -
  note t = batch_rows[of remote_7RUI parse_A rows_two world_0]
  have 1: "map out_ligand (map (\<lambda>r. case outcome_of remote_7RUI parse_A (PDB_ID r) of
                 Inr flds \<Rightarrow> ok_row r flds | Inl e \<Rightarrow> error_row r e) (map prepare_row rows_two)) =
     [''Error: 404 Client Error: Not Found for url: https://files.rcsb.org/download/0XXX.pdb'', ''7QZ'']"
    by code_simp
  have 2: "map out_ligand (concat (map (\<lambda>r. case outcome_of remote_7RUI parse_A (PDB_ID r) of
                 Inr flds \<Rightarrow> [ok_row r flds] | Inl e \<Rightarrow> []) (map prepare_row rows_two))) = [''7QZ'']"
    by code_simp
  have 3: "concat (map (\<lambda>r. case outcome_of remote_7RUI parse_A (PDB_ID r) of
                 Inr flds \<Rightarrow> []
               | Inl e \<Rightarrow> [''Skipping '' @ format_id (PDB_ID r) @ '' due to error: '' @ e])
             (map prepare_row rows_two)) =
     [''Skipping 0XXX due to error: 404 Client Error: Not Found for url: https://files.rcsb.org/download/0XXX.pdb'']"
    by code_simp
  have 4: "requests world_0 @ map (\<lambda>r. download_url (PDB_ID r)) (map prepare_row rows_two) =
     [''https://files.rcsb.org/download/0XXX.pdb'', ''https://files.rcsb.org/download/7RUI.pdb'']"
    by code_simp
  from t have a: "results (run_full remote_7RUI parse_A rows_two world_0) =
     map (\<lambda>r. case outcome_of remote_7RUI parse_A (PDB_ID r) of
                 Inr flds \<Rightarrow> ok_row r flds | Inl e \<Rightarrow> error_row r e) (map prepare_row rows_two)" by blast
  from t have b: "results (run_ache remote_7RUI parse_A rows_two world_0) =
     concat (map (\<lambda>r. case outcome_of remote_7RUI parse_A (PDB_ID r) of
                 Inr flds \<Rightarrow> [ok_row r flds] | Inl e \<Rightarrow> []) (map prepare_row rows_two))" by blast
  from t have c: "console (run_ache remote_7RUI parse_A rows_two world_0) =
     concat (map (\<lambda>r. case outcome_of remote_7RUI parse_A (PDB_ID r) of
                 Inr flds \<Rightarrow> []
               | Inl e \<Rightarrow> [''Skipping '' @ format_id (PDB_ID r) @ '' due to error: '' @ e])
             (map prepare_row rows_two))" by blast
  from t have d: "requests (world (run_ache remote_7RUI parse_A rows_two world_0)) =
     requests world_0 @ map (\<lambda>r. download_url (PDB_ID r)) (map prepare_row rows_two)" by blast
  show ?thesis unfolding a b c d using 1 2 3 4 by blast
qed

text \<open>
  Claim C7. The counter of a name is the number of residues that are heteroatom groups,
  carry that stripped name, and lie outside the exclusion set: one increment per
  residue. The atoms of the residues play no part, and a structure whose candidates are
  \<open>JQ1\<close> with count 2 and \<open>UNL\<close> with count 5 has the primary ligand \<open>UNL\<close>.
\<close>

theorem counts_per_residue:
  "counter_get (residue_counts (walk_structure s)) name =
     length (filter (\<lambda>r. hetfield r \<noteq> '' '' \<and> strip (resname r) = name \<and> name \<notin> SOLVENTS)
               (residues_of s)) \<and>
   walk_structure (map (map (map (\<lambda>r. r\<lparr>atoms := f r\<rparr>))) s) = walk_structure s \<and>
   (set (ligands (walk_structure s)) = {''JQ1'', ''UNL''} \<and>
    counter_get (residue_counts (walk_structure s)) ''JQ1'' = 2 \<and>
    counter_get (residue_counts (walk_structure s)) ''UNL'' = 5 \<longrightarrow>
      primary_ligand s = Inr ''UNL'')"
proof (intro conjI impI)
  show "counter_get (residue_counts (walk_structure s)) name =
     length (filter (\<lambda>r. hetfield r \<noteq> '' '' \<and> strip (resname r) = name \<and> name \<notin> SOLVENTS)
               (residues_of s))"
    by (simp add: walk_count_get walk_ligands count_candidates)
  show "walk_structure (map (map (map (\<lambda>r. r\<lparr>atoms := f r\<rparr>))) s) = walk_structure s"
    by (rule walk_structure_atoms)
next
  assume a: "set (ligands (walk_structure s)) = {''JQ1'', ''UNL''} \<and>
    counter_get (residue_counts (walk_structure s)) ''JQ1'' = 2 \<and>
    counter_get (residue_counts (walk_structure s)) ''UNL'' = 5"
  then have a1: "set (ligands (walk_structure s)) = {''JQ1'', ''UNL''}"
    and a2: "counter_get (residue_counts (walk_structure s)) ''JQ1'' = 2"
    and a3: "counter_get (residue_counts (walk_structure s)) ''UNL'' = 5" by blast+
  have uin: "''UNL'' \<in> set (ligands (walk_structure s))" unfolding a1 by (rule insertI2) (rule insertI1)
  then have "ligands (walk_structure s) \<noteq> []" by (metis empty_iff empty_set)
  from primary_some[OF this] obtain p where
    p: "primary_ligand s = Inr p" "p \<in> set (ligands (walk_structure s))"
    and m: "\<forall>q \<in> set (ligands (walk_structure s)).
               counter_get (residue_counts (walk_structure s)) q
                 \<le> counter_get (residue_counts (walk_structure s)) p" by blast
  from uin m have "counter_get (residue_counts (walk_structure s)) ''UNL''
                 \<le> counter_get (residue_counts (walk_structure s)) p" by blast
  then have five: "5 \<le> counter_get (residue_counts (walk_structure s)) p" unfolding a3 .
  from p(2) have pc: "p = ''JQ1'' \<or> p = ''UNL''" unfolding a1 by blast
  have "p \<noteq> ''JQ1''"
  proof
    assume "p = ''JQ1''"
    with five have "5 \<le> counter_get (residue_counts (walk_structure s)) ''JQ1''" by (simp only:)
    then show False unfolding a2 by simp
  qed
  with pc have "p = ''UNL''" by blast
  with p(1) show "primary_ligand s = Inr ''UNL''" by (simp only:)
qed

theorem counts_per_residue_witness:
  "set (ligands (walk_structure scenario_C)) = {''JQ1'', ''UNL''} \<and>
   counter_get (residue_counts (walk_structure scenario_C)) ''JQ1'' = 2 \<and>
   counter_get (residue_counts (walk_structure scenario_C)) ''UNL'' = 5 \<and>
   primary_ligand scenario_C = Inr ''UNL''"
proof -
  have 1: "set (ligands (walk_structure scenario_C)) = {''JQ1'', ''UNL''}" by code_simp
  have 2: "counter_get (residue_counts (walk_structure scenario_C)) ''JQ1'' = 2" by code_simp
  have 3: "counter_get (residue_counts (walk_structure scenario_C)) ''UNL'' = 5" by code_simp
  from counts_per_residue[of scenario_C] 1 2 3 have "primary_ligand scenario_C = Inr ''UNL''"
    by blast
  with 1 2 3 show ?thesis by blast
qed

text \<open>
  Claim C8, for the download of \<open>final_ligand_extraction.py\<close>. When the cache file of
  a code exists, whatever it holds, nothing is requested, the files are unchanged and
  the later steps read the cached copy; a request is issued only when the cache file is
  absent, exactly one, and the text fetched is written to the cache file of the code,
  so that processing the code again requests nothing.
\<close>

theorem cached_fetch:
  "(files w (cache_path c) \<noteq> None \<longrightarrow>
      fetch_cached remote c w = (Inr (cache_path c), w) \<and>
      requests (snd (fetch_cached remote c w)) = requests w \<and>
      files (snd (fetch_cached remote c w)) = files w \<and>
      cached_text (snd (fetch_cached remote c w)) c = cached_text w c \<and>
      cached_text w c \<noteq> None) \<and>
   (requests (snd (fetch_cached remote c w)) \<noteq> requests w \<longrightarrow> files w (cache_path c) = None) \<and>
   (files w (cache_path c) = None \<longrightarrow>
      requests (snd (fetch_cached remote c w)) = requests w @ [download_url (Some c)]) \<and>
   (files w (cache_path c) = None \<and> remote (download_url (Some c)) = Inr text \<longrightarrow>
      fetch_cached remote c w =
        (Inr (cache_path c),
         w\<lparr>requests := requests w @ [download_url (Some c)],
           files := (files w)(cache_path c \<mapsto> text)\<rparr>) \<and>
      cached_text (snd (fetch_cached remote c w)) c = Some text \<and>
      requests (snd (fetch_cached remote c (snd (fetch_cached remote c w))))
        = requests (snd (fetch_cached remote c w))) \<and>
   (files w (cache_path c) = None \<and> remote (download_url (Some c)) = Inl e \<longrightarrow>
      fetch_cached remote c w = (Inl e, w\<lparr>requests := requests w @ [download_url (Some c)]\<rparr>))"
  by (auto simp: fetch_cached_def http_get_def cached_text_def Let_def split: sum.splits)

theorem cached_fetch_witness:
  "files world_cached (cache_path ''7RUI'') \<noteq> None \<and>
   fetch_cached remote_7RUI ''7RUI'' world_cached = (Inr (cache_path ''7RUI''), world_cached) \<and>
   requests (snd (fetch_cached remote_7RUI ''7RUI'' world_cached)) = [] \<and>
   cached_text (snd (fetch_cached remote_7RUI ''7RUI'' world_cached)) ''7RUI''
     = Some ''HEADER    cached copy'' \<and>
   files world_0 (cache_path ''7RUI'') = None \<and>
   requests (snd (fetch_cached remote_7RUI ''7RUI'' world_0))
     = [''https://files.rcsb.org/download/7RUI.pdb''] \<and>
   cached_text (snd (fetch_cached remote_7RUI ''7RUI'' world_0)) ''7RUI''
     = Some ''HEADER    fetched copy'' \<and>
   requests (snd (fetch_cached remote_7RUI ''7RUI'' (snd (fetch_cached remote_7RUI ''7RUI'' world_0))))
     = [''https://files.rcsb.org/download/7RUI.pdb'']"
proof -
  have h: "files world_cached (cache_path ''7RUI'') \<noteq> None" by code_simp
  have a: "files world_0 (cache_path ''7RUI'') = None" by code_simp
  have r: "remote_7RUI (download_url (Some ''7RUI'')) = Inr ''HEADER    fetched copy''" by code_simp
  have u: "requests world_0 @ [download_url (Some ''7RUI'')] = [''https://files.rcsb.org/download/7RUI.pdb'']"
    by code_simp
  have q0: "requests world_cached = []" by code_simp
  have c0: "cached_text world_cached ''7RUI'' = Some ''HEADER    cached copy''" by code_simp
  note t1 = cached_fetch[of world_cached "''7RUI''" remote_7RUI]
  from t1 h
  have 1: "fetch_cached remote_7RUI ''7RUI'' world_cached = (Inr (cache_path ''7RUI''), world_cached)"
    by blast
  from t1 h have "requests (snd (fetch_cached remote_7RUI ''7RUI'' world_cached)) = requests world_cached"
    by blast
  then have 2: "requests (snd (fetch_cached remote_7RUI ''7RUI'' world_cached)) = []" unfolding q0 .
  from t1 h have "cached_text (snd (fetch_cached remote_7RUI ''7RUI'' world_cached)) ''7RUI''
     = cached_text world_cached ''7RUI''" by blast
  then have 3: "cached_text (snd (fetch_cached remote_7RUI ''7RUI'' world_cached)) ''7RUI''
     = Some ''HEADER    cached copy''" unfolding c0 .
  note t2 = cached_fetch[of world_0 "''7RUI''" remote_7RUI "''HEADER    fetched copy''"]
  from t2 a have "requests (snd (fetch_cached remote_7RUI ''7RUI'' world_0))
     = requests world_0 @ [download_url (Some ''7RUI'')]" by blast
  then have 4: "requests (snd (fetch_cached remote_7RUI ''7RUI'' world_0))
     = [''https://files.rcsb.org/download/7RUI.pdb'']" unfolding u .
  from t2 a r have 5: "cached_text (snd (fetch_cached remote_7RUI ''7RUI'' world_0)) ''7RUI''
     = Some ''HEADER    fetched copy''" by blast
  from t2 a r have "requests (snd (fetch_cached remote_7RUI ''7RUI'' (snd (fetch_cached remote_7RUI ''7RUI'' world_0))))
     = requests (snd (fetch_cached remote_7RUI ''7RUI'' world_0))" by blast
  then have 6: "requests (snd (fetch_cached remote_7RUI ''7RUI'' (snd (fetch_cached remote_7RUI ''7RUI'' world_0))))
     = [''https://files.rcsb.org/download/7RUI.pdb'']" unfolding 4 .
  from h 1 2 3 a 4 5 6 show ?thesis by blast
qed

text \<open>
  Claim C9. The primary ligand is a function of the residue sequence; the list
  \<open>ligands\<close> holds the candidates in the order met, and among the candidates of
  maximal count the primary ligand is the one met first.
\<close>

theorem primary_ligand_first_encountered:
  "(residues_of s = residues_of s' \<longrightarrow> primary_ligand s = primary_ligand s') \<and>
   ligands (walk_structure s) = candidate_names (residues_of s) \<and>
   (ligands (walk_structure s) \<noteq> [] \<longrightarrow>
      (\<exists>p. primary_ligand s = Inr p \<and> p \<in> set (ligands (walk_structure s)) \<and>
           (\<forall>q \<in> set (ligands (walk_structure s)).
               counter_get (residue_counts (walk_structure s)) q
                 \<le> counter_get (residue_counts (walk_structure s)) p) \<and>
           (\<forall>q \<in> set (ligands (walk_structure s)).
               counter_get (residue_counts (walk_structure s)) q
                 = counter_get (residue_counts (walk_structure s)) p \<longrightarrow>
               first_index (ligands (walk_structure s)) p
                 \<le> first_index (ligands (walk_structure s)) q)))"
proof (intro conjI impI)
  assume "residues_of s = residues_of s'"
  then show "primary_ligand s = primary_ligand s'"
    by (simp add: primary_ligand_def walk_structure_flat)
next
  show "ligands (walk_structure s) = candidate_names (residues_of s)" by (rule walk_ligands)
next
  assume "ligands (walk_structure s) \<noteq> []"
  then show "\<exists>p. primary_ligand s = Inr p \<and> p \<in> set (ligands (walk_structure s)) \<and>
           (\<forall>q \<in> set (ligands (walk_structure s)).
               counter_get (residue_counts (walk_structure s)) q
                 \<le> counter_get (residue_counts (walk_structure s)) p) \<and>
           (\<forall>q \<in> set (ligands (walk_structure s)).
               counter_get (residue_counts (walk_structure s)) q
                 = counter_get (residue_counts (walk_structure s)) p \<longrightarrow>
               first_index (ligands (walk_structure s)) p
                 \<le> first_index (ligands (walk_structure s)) q)"
    by (rule primary_some)
qed

theorem primary_ligand_first_encountered_witness:
  "ligands (walk_structure scenario_tie) = [''BBB'', ''AAA'', ''AAA'', ''BBB'', ''CCC''] \<and>
   counter_get (residue_counts (walk_structure scenario_tie)) ''AAA'' = 2 \<and>
   counter_get (residue_counts (walk_structure scenario_tie)) ''BBB'' = 2 \<and>
   primary_ligand scenario_tie = Inr ''BBB''"
proof -
  let ?st = "walk_structure scenario_tie"
  have l: "ligands ?st = [''BBB'', ''AAA'', ''AAA'', ''BBB'', ''CCC'']" by code_simp
  have a: "counter_get (residue_counts ?st) ''AAA'' = 2" by code_simp
  have b: "counter_get (residue_counts ?st) ''BBB'' = 2" by code_simp
  have c: "counter_get (residue_counts ?st) ''CCC'' = 1" by code_simp
  have fa: "first_index (ligands ?st) ''AAA'' = 1" by code_simp
  have fb: "first_index (ligands ?st) ''BBB'' = 0" by code_simp
  have ne: "ligands ?st \<noteq> []" unfolding l by (rule list.distinct(2))
  have bin: "''BBB'' \<in> set (ligands ?st)" unfolding l by (simp only: list.set insertI1)
  from primary_ligand_first_encountered[of scenario_tie scenario_tie] ne obtain p where
    p: "primary_ligand scenario_tie = Inr p" "p \<in> set (ligands ?st)"
    and m: "\<forall>q \<in> set (ligands ?st). counter_get (residue_counts ?st) q
                 \<le> counter_get (residue_counts ?st) p"
    and f: "\<forall>q \<in> set (ligands ?st). counter_get (residue_counts ?st) q
                 = counter_get (residue_counts ?st) p \<longrightarrow>
               first_index (ligands ?st) p \<le> first_index (ligands ?st) q" by blast
  from p(2) have cases: "p = ''BBB'' \<or> p = ''AAA'' \<or> p = ''CCC''"
    unfolding l by (simp only: set_simps insert_iff empty_iff) blast
  from m bin have mb: "counter_get (residue_counts ?st) ''BBB'' \<le> counter_get (residue_counts ?st) p"
    by blast
  have nc: "p \<noteq> ''CCC''"
  proof
    assume "p = ''CCC''"
    with mb have "counter_get (residue_counts ?st) ''BBB'' \<le> counter_get (residue_counts ?st) ''CCC''"
      by (simp only:)
    then show False unfolding b c by simp
  qed
  have na: "p \<noteq> ''AAA''"
  proof
    assume pa: "p = ''AAA''"
    from f bin have "counter_get (residue_counts ?st) ''BBB'' = counter_get (residue_counts ?st) p \<longrightarrow>
        first_index (ligands ?st) p \<le> first_index (ligands ?st) ''BBB''" by blast
    then have "counter_get (residue_counts ?st) ''BBB'' = counter_get (residue_counts ?st) ''AAA'' \<longrightarrow>
        first_index (ligands ?st) ''AAA'' \<le> first_index (ligands ?st) ''BBB''" unfolding pa .
    then show False unfolding a b fa fb by simp
  qed
  from cases nc na have "p = ''BBB''" by blast
  with p(1) have "primary_ligand scenario_tie = Inr ''BBB''" by (simp only:)
  with l a b show ?thesis by blast
qed

text \<open>
  Claim C10, as stated, fails in \<open>realligand_mapping.py\<close>, which tests the stripped
  name upper-cased against its exclusion set: the stripped name \<open>hoh\<close> is outside
  the set and the residue is excluded all the same, where the Counter-based loop keeps
  it.
\<close>

theorem upper_cased_exclusion_counterexample:
  "strip (slice 17 20 hoh_line) = ''hoh'' \<and> ''hoh'' \<notin> exclude_resnames \<and>
   scan_pdb_lines [hoh_line] = {} \<and>
   ''hoh'' \<notin> SOLVENTS \<and> ligands (walk_structure scenario_hoh) = [''hoh'']"
  by code_simp

text \<open>
  Claim C10, amended. The name recorded in \<open>all_residues\<close>, among the candidates and
  in the counter is the stripped residue name, and the Counter-based loop tests the
  stripped name against the exclusion set; the line scan of \<open>realligand_mapping.py\<close>
  records the stripped name of columns 18 to 20 of a heteroatom line when it is not
  empty and its upper-cased form is outside the exclusion set. In both, inputs that
  agree on the stripped names are classified alike, and every name in an output
  collection is free of surrounding whitespace.
\<close>

theorem names_are_stripped:
  "all_residues (walk_structure s) = (\<lambda>r. strip (resname r)) ` set (residues_of s) \<and>
   ligands (walk_structure s) = candidate_names (residues_of s) \<and>
   counter_get (residue_counts (walk_structure s)) n = count_list (candidate_names (residues_of s)) n \<and>
   (list_all2 (\<lambda>r r'. hetfield r = hetfield r' \<and> strip (resname r) = strip (resname r'))
       (residues_of s) (residues_of s') \<longrightarrow> walk_structure s = walk_structure s') \<and>
   (\<forall>m \<in> all_residues (walk_structure s) \<union> set (ligands (walk_structure s))
          \<union> fst ` set (residue_counts (walk_structure s)).
       strip m = m \<and> (m \<noteq> [] \<longrightarrow> \<not> is_space (hd m) \<and> \<not> is_space (last m))) \<and>
   (\<forall>m \<in> scan_pdb_lines lines.
       strip m = m \<and> m \<noteq> [] \<and> \<not> is_space (hd m) \<and> \<not> is_space (last m)) \<and>
   set (ligands (walk_structure s)) =
     {strip (resname r) | r. r \<in> set (residues_of s) \<and> hetfield r \<noteq> '' '' \<and>
        strip (resname r) \<notin> SOLVENTS} \<and>
   scan_pdb_lines lines =
     {strip (slice 17 20 l) | l. l \<in> set lines \<and> startswith l ''HETATM'' \<and>
        strip (slice 17 20 l) \<noteq> [] \<and> upper (strip (slice 17 20 l)) \<notin> exclude_resnames} \<and>
   (list_all2 (\<lambda>l l'. startswith l ''HETATM'' = startswith l' ''HETATM'' \<and>
                       strip (slice 17 20 l) = strip (slice 17 20 l')) lines lines' \<longrightarrow>
      scan_pdb_lines lines = scan_pdb_lines lines')"
proof (intro conjI impI ballI)
  show "all_residues (walk_structure s) = (\<lambda>r. strip (resname r)) ` set (residues_of s)"
    by (rule walk_all_residues)
  show "ligands (walk_structure s) = candidate_names (residues_of s)" by (rule walk_ligands)
  show "counter_get (residue_counts (walk_structure s)) n = count_list (candidate_names (residues_of s)) n"
    by (simp add: walk_count_get walk_ligands)
  show "set (ligands (walk_structure s)) =
     {strip (resname r) | r. r \<in> set (residues_of s) \<and> hetfield r \<noteq> '' '' \<and>
        strip (resname r) \<notin> SOLVENTS}"
    by (rule walk_ligands_set)
  show "scan_pdb_lines lines =
     {strip (slice 17 20 l) | l. l \<in> set lines \<and> startswith l ''HETATM'' \<and>
        strip (slice 17 20 l) \<noteq> [] \<and> upper (strip (slice 17 20 l)) \<notin> exclude_resnames}"
    by (rule scan_pdb_lines_eq)
next
  assume "list_all2 (\<lambda>r r'. hetfield r = hetfield r' \<and> strip (resname r) = strip (resname r'))
       (residues_of s) (residues_of s')"
  then show "walk_structure s = walk_structure s'" by (rule walk_structure_cong)
next
  assume "list_all2 (\<lambda>l l'. startswith l ''HETATM'' = startswith l' ''HETATM'' \<and>
                       strip (slice 17 20 l) = strip (slice 17 20 l')) lines lines'"
  then show "scan_pdb_lines lines = scan_pdb_lines lines'"
    unfolding scan_pdb_lines_def by (rule fold_scan_line_cong)
next
  fix m assume "m \<in> all_residues (walk_structure s) \<union> set (ligands (walk_structure s))
          \<union> fst ` set (residue_counts (walk_structure s))"
  then have "m \<in> (\<lambda>r. strip (resname r)) ` set (residues_of s)"
    using candidate_names_subset[of "residues_of s"]
    by (auto simp: walk_keys walk_ligands walk_all_residues)
  then obtain r :: residue where m: "m = strip (resname r)" by blast
  show "strip m = m" unfolding m by (rule strip_idem)
  show "\<not> is_space (hd m)" if "m \<noteq> []" using strip_ends[of "resname r"] that m by simp
  show "\<not> is_space (last m)" if "m \<noteq> []" using strip_ends[of "resname r"] that m by simp
next
  fix m assume "m \<in> scan_pdb_lines lines"
  then have "strip m = m \<and> m \<noteq> [] \<and> \<not> is_space (hd m) \<and> \<not> is_space (last m)"
    by (rule scan_pdb_lines_stripped)
  then show "strip m = m" "m \<noteq> []" "\<not> is_space (hd m)" "\<not> is_space (last m)" by simp_all
qed

theorem names_are_stripped_witness:
  "list_all2 (\<lambda>r r'. hetfield r = hetfield r' \<and> strip (resname r) = strip (resname r'))
     (residues_of scenario_padded) (residues_of scenario_stripped) \<and>
   walk_structure scenario_padded = walk_structure scenario_stripped \<and>
   ''CL'' \<in> all_residues (walk_structure scenario_padded) \<and>
   '' CL'' \<notin> all_residues (walk_structure scenario_padded) \<and>
   ligands (walk_structure scenario_padded) = [''7QZ''] \<and>
   strip ''CL'' = ''CL'' \<and>
   list_all2 (\<lambda>l l'. startswith l ''HETATM'' = startswith l' ''HETATM'' \<and>
                      strip (slice 17 20 l) = strip (slice 17 20 l')) lines_padded lines_stripped \<and>
   scan_pdb_lines lines_padded = scan_pdb_lines lines_stripped \<and>
   scan_pdb_lines lines_padded = {''7QZ''} \<and>
   strip ''7QZ'' = ''7QZ''"
proof -
  have h: "list_all2 (\<lambda>r r'. hetfield r = hetfield r' \<and> strip (resname r) = strip (resname r'))
     (residues_of scenario_padded) (residues_of scenario_stripped)" by code_simp
  have g: "list_all2 (\<lambda>l l'. startswith l ''HETATM'' = startswith l' ''HETATM'' \<and>
                      strip (slice 17 20 l) = strip (slice 17 20 l')) lines_padded lines_stripped"
    by code_simp
  note t = names_are_stripped[of scenario_padded "''CL''" scenario_stripped lines_padded lines_stripped]
  from t h have eq: "walk_structure scenario_padded = walk_structure scenario_stripped" by blast
  from t g have eq2: "scan_pdb_lines lines_padded = scan_pdb_lines lines_stripped" by blast
  have i: "''CL'' \<in> all_residues (walk_structure scenario_padded)" by code_simp
  have n: "'' CL'' \<notin> all_residues (walk_structure scenario_padded)" by code_simp
  have l: "ligands (walk_structure scenario_padded) = [''7QZ'']" by code_simp
  have sc: "scan_pdb_lines lines_padded = {''7QZ''}" by code_simp
  from t i have c: "strip ''CL'' = ''CL''" by blast
  have "''7QZ'' \<in> scan_pdb_lines lines_padded" unfolding sc by (rule insertI1)
  with t have q: "strip ''7QZ'' = ''7QZ''" by blast
  from h eq i n l c g eq2 sc q show ?thesis by blast
qed

end
